theory Spec2Isabelle
  imports Main "HOL-Library.Multiset"
begin

section \<open>Data model of \<^verbatim>\<open>src/components/sudoku-game.tsx\<close>\<close>

text \<open>
  \<^verbatim>\<open>type SudokuGrid = (number | null)[][]\<close>: a raw grid is a list of rows of optional
  digits, \<open>None\<close> standing for \<^verbatim>\<open>null\<close>.

  \<^verbatim>\<open>type SudokuCell = { value, isFixed, isValid }\<close>: the field \<^verbatim>\<open>value\<close> is called
  \<open>cell_value\<close> here, because \<^verbatim>\<open>value\<close> is a reserved word of the theory language.

  \<^verbatim>\<open>type MoveHistory = { grid, selectedCell }\<close>: one snapshot of the undo stack. Its
  fields carry the prefix \<open>h_\<close>, because the component's state has fields of the same
  names. A selected cell \<^verbatim>\<open>{ row, col }\<close> is the pair \<open>(row, col)\<close>.
\<close>

type_synonym SudokuGrid = "nat option list list"

record SudokuCell =
  cell_value :: "nat option"
  isFixed :: bool
  isValid :: bool

record MoveHistory =
  h_grid :: "SudokuCell list list"
  h_selectedCell :: "(nat \<times> nat) option"

section \<open>The random source\<close>

text \<open>
  The generator calls \<^verbatim>\<open>Math.random()\<close>. The model passes the random source explicitly:
  a list of natural numbers that is consumed from the front, every draw
  \<^verbatim>\<open>Math.floor(Math.random() * n)\<close> being the next number reduced modulo \<open>n\<close> (any value
  in \<open>0..n-1\<close> can be drawn). A run of the generator makes finitely many draws, so a
  finite list, read as followed by zeros, represents every run.
\<close>

type_synonym rng = "nat list"

fun random_below :: "nat \<Rightarrow> rng \<Rightarrow> nat \<times> rng" where
  "random_below n [] = (0, [])"
| "random_below n (x # xs) = (x mod n, xs)"

section \<open>The grid generator\<close>

text \<open>
  \<^verbatim>\<open>shuffleArray\<close>: \<^verbatim>\<open>for (let i = array.length - 1; i > 0; i--)\<close> draws
  \<^verbatim>\<open>j = Math.floor(Math.random() * (i + 1))\<close> and swaps \<^verbatim>\<open>array[i]\<close> with \<^verbatim>\<open>array[j]\<close>.
  \<open>shuffle_from i\<close> is the loop from index \<open>i\<close> downwards.
\<close>

fun shuffle_from :: "nat \<Rightarrow> 'a list \<Rightarrow> rng \<Rightarrow> 'a list \<times> rng" where
  "shuffle_from 0 array rnd = (array, rnd)"
| "shuffle_from (Suc k) array rnd =
     (let (j, rnd') = random_below (Suc k + 1) rnd
      in shuffle_from k (array[Suc k := array ! j, j := array ! Suc k]) rnd')"

definition shuffleArray :: "'a list \<Rightarrow> rng \<Rightarrow> 'a list \<times> rng" where
  "shuffleArray array rnd = shuffle_from (length array - 1) array rnd"

text \<open>The assignment \<^verbatim>\<open>grid[row][col] = v\<close>.\<close>

definition set_cell :: "'a list list \<Rightarrow> nat \<Rightarrow> nat \<Rightarrow> 'a \<Rightarrow> 'a list list" where
  "set_cell grid row col v = grid[row := (grid ! row)[col := v]]"

text \<open>
  The test \<^verbatim>\<open>grid[row][col] === null\<close>. A column index beyond the row reads
  \<^verbatim>\<open>undefined\<close> in JavaScript, which is not \<^verbatim>\<open>null\<close>; the generator only ever reads
  its own 9 by 9 grid.
\<close>

definition is_null :: "SudokuGrid \<Rightarrow> nat \<Rightarrow> nat \<Rightarrow> bool" where
  "is_null grid row col =
     (row < length grid \<and> col < length (grid ! row) \<and> grid ! row ! col = None)"

text \<open>
  The 81 positions in row-major order: the two nested loops
  \<^verbatim>\<open>for (row = 0; row < 9; row++) for (col = 0; col < 9; col++)\<close> of \<^verbatim>\<open>fillGrid\<close>
  and \<^verbatim>\<open>removeCells\<close>.
\<close>

definition all_cells :: "(nat \<times> nat) list" where
  "all_cells = concat (map (\<lambda>row. map (\<lambda>col. (row, col)) [0..<9]) [0..<9])"

text \<open>The scan of \<^verbatim>\<open>fillGrid\<close> stops at the first empty cell.\<close>

definition first_null :: "SudokuGrid \<Rightarrow> (nat \<times> nat) option" where
  "first_null grid = find (\<lambda>(row, col). is_null grid row col) all_cells"

text \<open>
  \<^verbatim>\<open>isValidPlacement\<close>: three loops, each returning \<^verbatim>\<open>false\<close> at the first cell that
  holds \<^verbatim>\<open>num\<close>: the row, the column, the 3 by 3 box at
  \<^verbatim>\<open>(Math.floor(row / 3) * 3, Math.floor(col / 3) * 3)\<close>. The cell \<open>(row, col)\<close> itself is
  not skipped.
\<close>

definition isValidPlacement :: "SudokuGrid \<Rightarrow> nat \<Rightarrow> nat \<Rightarrow> nat \<Rightarrow> bool" where
  "isValidPlacement grid row col num =
     (if list_ex (\<lambda>c. grid ! row ! c = Some num) [0..<9] then False
      else if list_ex (\<lambda>r. grid ! r ! col = Some num) [0..<9] then False
      else let boxRow = (row div 3) * 3; boxCol = (col div 3) * 3
           in \<not> list_ex (\<lambda>r. list_ex (\<lambda>c. grid ! r ! c = Some num) [boxCol..<boxCol + 3])
                           [boxRow..<boxRow + 3])"

text \<open>
  \<^verbatim>\<open>fillGrid\<close> mutates the grid in place and returns a boolean; the model returns the
  boolean, the grid as the call leaves it, and the rest of the random source.
  \<open>try_numbers\<close> is the loop \<^verbatim>\<open>for (const num of numbers)\<close> at the first empty cell:
  a legal digit is written, the grid is filled recursively, and after a failed
  recursive call the cell is reset to \<^verbatim>\<open>null\<close> in the grid that call left behind.
\<close>

function fillGrid :: "SudokuGrid \<Rightarrow> rng \<Rightarrow> bool \<times> SudokuGrid \<times> rng"
  and try_numbers ::
    "SudokuGrid \<Rightarrow> nat \<Rightarrow> nat \<Rightarrow> nat list \<Rightarrow> rng \<Rightarrow> bool \<times> SudokuGrid \<times> rng"
where
  "fillGrid grid rnd =
     (case first_null grid of
        None \<Rightarrow> (True, grid, rnd)
      | Some (row, col) \<Rightarrow>
          (let (numbers, rnd') = shuffleArray [1, 2, 3, 4, 5, 6, 7, 8, 9] rnd
           in try_numbers grid row col numbers rnd'))"
| "try_numbers grid row col [] rnd = (False, grid, rnd)"
| "try_numbers grid row col (num # nums) rnd =
     (if isValidPlacement grid row col num
      then (let res = fillGrid (set_cell grid row col (Some num)) rnd
            in if fst res then res
               else try_numbers (set_cell (fst (snd res)) row col None) row col nums
                      (snd (snd res)))
      else try_numbers grid row col nums rnd)"
  by pat_completeness auto

text \<open>
  Termination. The number of empty cells decreases with every digit written, but the
  loop continues on the grid that the failed recursive call returns, so the proof first
  shows, for calls that terminate, that a failed call returns the grid it was given.
\<close>

definition count_null :: "SudokuGrid \<Rightarrow> nat" where
  "count_null grid = length (filter (\<lambda>(row, col). is_null grid row col) all_cells)"

lemma set_cell_overwrite:
  "set_cell (set_cell grid row col v) row col w = set_cell grid row col w"
  by (cases "row < length grid") (simp_all add: set_cell_def list_update_beyond)

lemma set_cell_null_id: "is_null grid row col \<Longrightarrow> set_cell grid row col None = grid"
proof -
  assume n: "is_null grid row col"
  then have "(grid ! row)[col := None] = grid ! row"
    by (simp add: is_null_def list_update_same_conv)
  then show ?thesis using n by (simp add: set_cell_def is_null_def)
qed

lemma is_null_set_cell_Some:
  "is_null (set_cell grid row col (Some v)) r c = (is_null grid r c \<and> (r, c) \<noteq> (row, col))"
  by (cases "r = row"; cases "c = col"; cases "row < length grid")
     (auto simp: is_null_def set_cell_def nth_list_update)

lemma count_null_set_cell_Some:
  "count_null (set_cell grid row col (Some v)) =
     length (filter (\<lambda>p. p \<noteq> (row, col)) (filter (\<lambda>(r, c). is_null grid r c) all_cells))"
  unfolding count_null_def filter_filter
  by (rule arg_cong [where f = length], rule filter_cong) (auto simp: is_null_set_cell_Some)

lemma count_null_set_cell_less:
  assumes "is_null grid row col" and "(row, col) \<in> set all_cells"
  shows "count_null (set_cell grid row col (Some v)) < count_null grid"
proof -
  have "(row, col) \<in> set (filter (\<lambda>(r, c). is_null grid r c) all_cells)"
    using assms by simp
  then have "length (filter (\<lambda>p. p \<noteq> (row, col)) (filter (\<lambda>(r, c). is_null grid r c) all_cells))
               < length (filter (\<lambda>(r, c). is_null grid r c) all_cells)"
    by (rule length_filter_less) simp
  then have "count_null (set_cell grid row col (Some v))
               < length (filter (\<lambda>(r, c). is_null grid r c) all_cells)"
    by (simp only: count_null_set_cell_Some)
  then show ?thesis by (simp only: count_null_def)
qed

lemma first_null_Some:
  "first_null grid = Some (row, col) \<Longrightarrow> is_null grid row col \<and> (row, col) \<in> set all_cells"
  by (auto simp: first_null_def find_Some_iff in_set_conv_nth)

lemma fill_fail_dom:
  "fillGrid_try_numbers_dom (Inl (grid, rnd)) \<Longrightarrow>
     \<not> fst (fillGrid grid rnd) \<Longrightarrow> fst (snd (fillGrid grid rnd)) = grid"
  "fillGrid_try_numbers_dom (Inr (grid, row, col, nums, rnd)) \<Longrightarrow> is_null grid row col \<Longrightarrow>
     \<not> fst (try_numbers grid row col nums rnd) \<Longrightarrow>
     fst (snd (try_numbers grid row col nums rnd)) = grid"
proof (induct rule: fillGrid_try_numbers.pinduct)
  case (1 grid rnd)
  show ?case
  proof (cases "first_null grid")
    case None
    with 1 show ?thesis by (simp add: fillGrid.psimps)
  next
    case (Some p)
    obtain row col where p: "p = (row, col)" by (cases p)
    obtain numbers rnd'
      where sh: "shuffleArray [1::nat, 2, 3, 4, 5, 6, 7, 8, 9] rnd = (numbers, rnd')"
      by (cases "shuffleArray [1::nat, 2, 3, 4, 5, 6, 7, 8, 9] rnd")
    have eq: "fillGrid grid rnd = try_numbers grid row col numbers rnd'"
      using 1(1) Some p sh by (simp add: fillGrid.psimps)
    have nul: "is_null grid row col" using Some p first_null_Some by blast
    show ?thesis
      using 1(2) [OF Some p [symmetric] refl sh [symmetric] nul] 1(3) eq by simp
  qed
next
  case (2 grid row col rnd)
  then show ?case by (simp add: try_numbers.psimps)
next
  case (3 grid row col num nums rnd)
  show ?case
  proof (cases "isValidPlacement grid row col num")
    case False
    with 3 show ?thesis by (simp add: try_numbers.psimps)
  next
    case True
    let ?res = "fillGrid (set_cell grid row col (Some num)) rnd"
    show ?thesis
    proof (cases "fst ?res")
      case filled: True
      with 3(1,6) True show ?thesis by (simp add: try_numbers.psimps Let_def)
    next
      case failed: False
      have g: "fst (snd ?res) = set_cell grid row col (Some num)"
        using 3(2) True failed by simp
      have restored: "set_cell (fst (snd ?res)) row col None = grid"
        using g 3(5) by (simp add: set_cell_overwrite set_cell_null_id)
      have eq: "try_numbers grid row col (num # nums) rnd
                  = try_numbers grid row col nums (snd (snd ?res))"
        using 3(1) True failed restored by (simp add: try_numbers.psimps Let_def)
      show ?thesis using 3(3) [OF True refl failed] 3(5,6) restored eq by simp
    qed
  qed
qed

termination fillGrid
proof (relation "measures
    [\<lambda>x. case x of Inl (grid, rnd) \<Rightarrow> 2 * count_null grid
               | Inr (grid, row, col, nums, rnd) \<Rightarrow>
                   2 * count_null (set_cell grid row col (Some 0)) + 1,
     \<lambda>x. case x of Inl _ \<Rightarrow> 0 | Inr (grid, row, col, nums, rnd) \<Rightarrow> length nums]",
    goal_cases)
  case 1
  show ?case by simp
next
  case (2 grid rnd x2 x y xa xb ya)
  then have "is_null grid x y \<and> (x, y) \<in> set all_cells" using first_null_Some by blast
  then have "count_null (set_cell grid x y (Some 0)) < count_null grid"
    by (simp add: count_null_set_cell_less)
  then show ?case by simp
next
  case (3 grid row col num nums rnd)
  show ?case by (simp add: count_null_set_cell_Some)
next
  case (4 grid row col num nums rnd x)
  have "fst (snd x) = set_cell grid row col (Some num)"
    using 4 fill_fail_dom(1) by blast
  then show ?case by (simp add: set_cell_overwrite)
next
  case (5 grid row col num nums rnd)
  show ?case by simp
qed

declare fillGrid.simps [simp del]

text \<open>
  \<^verbatim>\<open>removeCells\<close>: the 81 positions are shuffled and the first \<^verbatim>\<open>count\<close> of them
  (\<^verbatim>\<open>i < count && i < cells.length\<close>) are set to \<^verbatim>\<open>null\<close>; the parameter
  \<^verbatim>\<open>count\<close> is \<open>cnt\<close> here.
\<close>

definition removeCells :: "SudokuGrid \<Rightarrow> nat \<Rightarrow> rng \<Rightarrow> SudokuGrid \<times> rng" where
  "removeCells grid cnt rnd =
     (let (cells, rnd') = shuffleArray all_cells rnd
      in (fold (\<lambda>(row, col) g. set_cell g row col None) (take cnt cells) grid, rnd'))"

text \<open>
  \<^verbatim>\<open>generateRandomSudoku\<close>: an empty 9 by 9 grid is filled (the boolean that
  \<^verbatim>\<open>fillGrid\<close> returns is ignored by the source), then
  \<^verbatim>\<open>45 + Math.floor(Math.random() * 6)\<close> cells are removed.
\<close>

definition generateRandomSudoku :: "rng \<Rightarrow> SudokuGrid" where
  "generateRandomSudoku rnd =
     (let grid = replicate 9 (replicate 9 None);
          (filled, grid1, rnd1) = fillGrid grid rnd;
          (k, rnd2) = random_below 6 rnd1;
          cellsToRemove = 45 + k;
          (grid2, rnd3) = removeCells grid1 cellsToRemove rnd2
      in grid2)"

section \<open>The game component\<close>

text \<open>
  The component's \<^verbatim>\<open>useState\<close> variables form one record. The sounds a handler plays
  are appended to \<open>played\<close>: \<^verbatim>\<open>playErrorSound\<close> is the signal of an invalid placement and
  \<^verbatim>\<open>playPlaceSound\<close> that of a valid one. \<^verbatim>\<open>lives\<close> is a JavaScript number, modelled as
  an integer. The one-second tick of the timer is not modelled; the handlers only reset
  \<^verbatim>\<open>timer\<close> and switch \<^verbatim>\<open>isTimerRunning\<close>.
\<close>

datatype sound = PlaceSound | ErrorSound | SuccessSound | UndoSound | ClickSound

record SudokuGame =
  grid :: "SudokuCell list list"
  selectedCell :: "(nat \<times> nat) option"
  highlightedNumber :: "nat option"
  highlightedPosition :: "(nat \<times> nat) option"
  isComplete :: bool
  moveHistory :: "MoveHistory list"
  lives :: int
  timer :: nat
  isTimerRunning :: bool
  currentPuzzle :: SudokuGrid
  played :: "sound list"

text \<open>\<^verbatim>\<open>array.map((x, index) => f(x, index))\<close>.\<close>

definition mapi :: "('a \<Rightarrow> nat \<Rightarrow> 'b) \<Rightarrow> 'a list \<Rightarrow> 'b list" where
  "mapi f xs = map (\<lambda>(i, x). f x i) (enumerate 0 xs)"

text \<open>
  The annotated grid built from a raw puzzle, as the mount effect, \<^verbatim>\<open>handleReset\<close> and
  \<^verbatim>\<open>handleNewPuzzle\<close> build it.
\<close>

definition initialGrid :: "SudokuGrid \<Rightarrow> SudokuCell list list" where
  "initialGrid puzzle =
     map (map (\<lambda>cell. \<lparr>cell_value = cell, isFixed = (cell \<noteq> None), isValid = True\<rparr>)) puzzle"

text \<open>The values of the \<^verbatim>\<open>useState\<close> calls, before the mount effect has run.\<close>

definition initial_state :: SudokuGame where
  "initial_state =
     \<lparr>grid = [], selectedCell = None, highlightedNumber = None, highlightedPosition = None,
      isComplete = False, moveHistory = [], lives = 3, timer = 0, isTimerRunning = False,
      currentPuzzle = [], played = []\<rparr>"

text \<open>
  The mount effect \<^verbatim>\<open>useEffect(() => {...}, [])\<close> creates the session from a generated
  puzzle; \<open>createSession\<close> is the effect for a given puzzle.
\<close>

definition createSession :: "SudokuGrid \<Rightarrow> SudokuGame" where
  "createSession puzzle =
     initial_state
       \<lparr>currentPuzzle := puzzle,
        grid := initialGrid puzzle,
        moveHistory := [\<lparr>h_grid = initialGrid puzzle, h_selectedCell = None\<rparr>],
        isTimerRunning := True\<rparr>"

definition mountEffect :: "rng \<Rightarrow> SudokuGame" where
  "mountEffect rnd = createSession (generateRandomSudoku rnd)"

text \<open>\<^verbatim>\<open>handleUndo\<close>: \<^verbatim>\<open>moveHistory.slice(0, -1)\<close> is \<open>butlast\<close>.\<close>

definition handleUndo :: "SudokuGame \<Rightarrow> SudokuGame" where
  "handleUndo s =
     (if length (moveHistory s) \<le> 1 then s
      else let newHistory = butlast (moveHistory s);
               previousState = newHistory ! (length newHistory - 1)
           in s\<lparr>played := played s @ [UndoSound],
                moveHistory := newHistory,
                grid := h_grid previousState,
                selectedCell := h_selectedCell previousState,
                isComplete := False\<rparr>)"

text \<open>
  \<^verbatim>\<open>isValidMove\<close>: as \<^verbatim>\<open>isValidPlacement\<close>, on the annotated grid, but every loop skips
  the cell \<open>(row, col)\<close> itself.
\<close>

definition isValidMove :: "SudokuCell list list \<Rightarrow> nat \<Rightarrow> nat \<Rightarrow> nat \<Rightarrow> bool" where
  "isValidMove g row col num =
     (if list_ex (\<lambda>c. c \<noteq> col \<and> cell_value (g ! row ! c) = Some num) [0..<9] then False
      else if list_ex (\<lambda>r. r \<noteq> row \<and> cell_value (g ! r ! col) = Some num) [0..<9] then False
      else let boxRow = (row div 3) * 3; boxCol = (col div 3) * 3
           in \<not> list_ex (\<lambda>r. list_ex (\<lambda>c. (r \<noteq> row \<or> c \<noteq> col) \<and> cell_value (g ! r ! c) = Some num)
                                     [boxCol..<boxCol + 3])
                           [boxRow..<boxRow + 3])"

definition updateValidation :: "SudokuCell list list \<Rightarrow> SudokuCell list list" where
  "updateValidation newGrid =
     mapi (\<lambda>row rowIndex.
        mapi (\<lambda>cell colIndex.
           cell\<lparr>isValid := (case cell_value cell of
                               None \<Rightarrow> True
                             | Some v \<Rightarrow> isValidMove newGrid rowIndex colIndex v)\<rparr>) row)
       newGrid"

text \<open>The grid with the value of the cell \<open>(srow, scol)\<close> replaced, as both
  \<^verbatim>\<open>handleNumberInput\<close> and \<^verbatim>\<open>handleClear\<close> build it with two nested \<^verbatim>\<open>map\<close>s.\<close>

definition replace_value ::
  "SudokuCell list list \<Rightarrow> nat \<Rightarrow> nat \<Rightarrow> nat option \<Rightarrow> SudokuCell list list" where
  "replace_value g srow scol newValue =
     mapi (\<lambda>row rowIndex.
        mapi (\<lambda>cell colIndex.
           if rowIndex = srow \<and> colIndex = scol then cell\<lparr>cell_value := newValue\<rparr> else cell) row)
       g"

definition handleNumberInput :: "SudokuGame \<Rightarrow> nat \<Rightarrow> SudokuGame" where
  "handleNumberInput s num =
     (case selectedCell s of
        None \<Rightarrow> s
      | Some (srow, scol) \<Rightarrow>
          if isFixed (grid s ! srow ! scol) then s
          else
            let currentValue = cell_value (grid s ! srow ! scol);
                newValue = (if currentValue = Some num then None else Some num);
                newGrid = replace_value (grid s) srow scol newValue;
                validatedGrid = updateValidation newGrid;
                s1 = (if newValue \<noteq> None \<and> \<not> isValid (validatedGrid ! srow ! scol)
                      then s\<lparr>played := played s @ [ErrorSound], lives := max 0 (lives s - 1)\<rparr>
                      else if newValue \<noteq> None then s\<lparr>played := played s @ [PlaceSound]\<rparr>
                      else s);
                s2 = s1\<lparr>grid := validatedGrid,
                        moveHistory := moveHistory s1 @
                          [\<lparr>h_grid = validatedGrid, h_selectedCell = selectedCell s\<rparr>]\<rparr>;
                isFull = list_all (list_all (\<lambda>cell. cell_value cell \<noteq> None)) validatedGrid;
                allValid = list_all (list_all isValid) validatedGrid
            in if isFull \<and> allValid
               then s2\<lparr>played := played s2 @ [SuccessSound], isComplete := True,
                       isTimerRunning := False\<rparr>
               else s2)"

definition handleCellClick :: "SudokuGame \<Rightarrow> nat \<Rightarrow> nat \<Rightarrow> SudokuGame" where
  "handleCellClick s row col =
     (let cell = grid s ! row ! col;
          s1 = s\<lparr>played := played s @ [ClickSound],
                 highlightedNumber := cell_value cell,
                 highlightedPosition := Some (row, col)\<rparr>
      in if isFixed cell then s1 else s1\<lparr>selectedCell := Some (row, col)\<rparr>)"

definition handleClear :: "SudokuGame \<Rightarrow> SudokuGame" where
  "handleClear s =
     (case selectedCell s of
        None \<Rightarrow> s
      | Some (srow, scol) \<Rightarrow>
          if isFixed (grid s ! srow ! scol) then s
          else
            let newGrid = replace_value (grid s) srow scol None;
                validatedGrid = updateValidation newGrid
            in s\<lparr>played := played s @ [ClickSound],
                 grid := validatedGrid,
                 moveHistory := moveHistory s @
                   [\<lparr>h_grid = validatedGrid, h_selectedCell = selectedCell s\<rparr>],
                 isComplete := False\<rparr>)"

definition handleReset :: "SudokuGame \<Rightarrow> SudokuGame" where
  "handleReset s =
     s\<lparr>played := played s @ [ClickSound],
       grid := initialGrid (currentPuzzle s),
       selectedCell := None, highlightedNumber := None, highlightedPosition := None,
       isComplete := False,
       moveHistory := [\<lparr>h_grid = initialGrid (currentPuzzle s), h_selectedCell = None\<rparr>],
       lives := 3, timer := 0, isTimerRunning := True\<rparr>"

definition handleNewPuzzle :: "SudokuGame \<Rightarrow> rng \<Rightarrow> SudokuGame" where
  "handleNewPuzzle s rnd =
     (let randomPuzzle = generateRandomSudoku rnd
      in s\<lparr>played := played s @ [ClickSound],
           currentPuzzle := randomPuzzle,
           grid := initialGrid randomPuzzle,
           selectedCell := None, highlightedNumber := None, highlightedPosition := None,
           isComplete := False,
           moveHistory := [\<lparr>h_grid = initialGrid randomPuzzle, h_selectedCell = None\<rparr>],
           lives := 3, timer := 0, isTimerRunning := True\<rparr>)"

text \<open>
  The two ways a digit reaches \<^verbatim>\<open>handleNumberInput\<close>. The number buttons carry
  \<^verbatim>\<open>disabled={!selectedCell || grid[selectedCell.row][selectedCell.col].isFixed || lives === 0}\<close>.
  The \<^verbatim>\<open>keydown\<close> listener parses the key with \<^verbatim>\<open>Number.parseInt\<close> (\<open>None\<close> stands
  for \<^verbatim>\<open>NaN\<close>) and calls the handler for the numbers 1 to 9 with no further test.
\<close>

definition number_buttons_disabled :: "SudokuGame \<Rightarrow> bool" where
  "number_buttons_disabled s =
     (case selectedCell s of
        None \<Rightarrow> True
      | Some (row, col) \<Rightarrow> isFixed (grid s ! row ! col) \<or> lives s = 0)"

definition handleKeyPress :: "SudokuGame \<Rightarrow> int option \<Rightarrow> SudokuGame" where
  "handleKeyPress s key =
     (case key of
        None \<Rightarrow> s
      | Some num \<Rightarrow> if 1 \<le> num \<and> num \<le> 9 then handleNumberInput s (nat num) else s)"

text \<open>
  The user's operations on a session. A click reaches \<^verbatim>\<open>handleCellClick\<close> only from the
  button rendered for an existing cell of the grid.
\<close>

datatype action = Select nat nat | Input nat | Clear | Undo

fun perform :: "action \<Rightarrow> SudokuGame \<Rightarrow> SudokuGame" where
  "perform (Select row col) s =
     (if row < length (grid s) \<and> col < length (grid s ! row) then handleCellClick s row col else s)"
| "perform (Input num) s = handleNumberInput s num"
| "perform Clear s = handleClear s"
| "perform Undo s = handleUndo s"

definition run :: "SudokuGame \<Rightarrow> action list \<Rightarrow> SudokuGame" where
  "run s acts = fold perform acts s"

section \<open>Vocabulary of the properties\<close>

text \<open>
  A grid of the program is 9 by 9. Two positions share a unit when they lie in the same
  row, the same column or the same 3 by 3 box. \<open>other_holds g val row col num\<close> says
  that a cell of \<open>g\<close> other than \<open>(row, col)\<close> in one of its units holds \<open>num\<close>; \<open>val\<close>
  reads the digit of a cell (the identity on a raw grid, \<open>cell_value\<close> on an annotated
  one).
\<close>

definition square9 :: "'a list list \<Rightarrow> bool" where
  "square9 g = (length g = 9 \<and> (\<forall>row \<in> set g. length row = 9))"

definition same_unit :: "nat \<Rightarrow> nat \<Rightarrow> nat \<Rightarrow> nat \<Rightarrow> bool" where
  "same_unit r c r' c' = (r = r' \<or> c = c' \<or> (r div 3 = r' div 3 \<and> c div 3 = c' div 3))"

definition other_holds :: "'a list list \<Rightarrow> ('a \<Rightarrow> nat option) \<Rightarrow> nat \<Rightarrow> nat \<Rightarrow> nat \<Rightarrow> bool" where
  "other_holds g val row col num =
     (\<exists>r < 9. \<exists>c < 9. (r, c) \<noteq> (row, col) \<and> same_unit row col r c \<and> val (g ! r ! c) = Some num)"

text \<open>
  The outcome of a value entry, read off the sounds the handler played: the error sound is
  the invalid placement, the place sound the valid one.
\<close>

datatype outcome = NoOutcome | Placed | Invalid

definition outcome_of :: "SudokuGame \<Rightarrow> SudokuGame \<Rightarrow> outcome" where
  "outcome_of s s' =
     (let new = drop (length (played s)) (played s')
      in if ErrorSound \<in> set new then Invalid
         else if PlaceSound \<in> set new then Placed else NoOutcome)"

text \<open>Every cell of an annotated grid is non-empty; every cell is marked valid.\<close>

definition all_filled :: "SudokuCell list list \<Rightarrow> bool" where
  "all_filled g = (\<forall>row \<in> set g. \<forall>cell \<in> set row. cell_value cell \<noteq> None)"

definition all_valid :: "SudokuCell list list \<Rightarrow> bool" where
  "all_valid g = (\<forall>row \<in> set g. \<forall>cell \<in> set row. isValid cell)"

text \<open>
  Two cells of an annotated grid are in conflict when they are different cells of one
  unit holding the same digit.
\<close>

definition conflict :: "SudokuCell list list \<Rightarrow> nat \<times> nat \<Rightarrow> nat \<times> nat \<Rightarrow> bool" where
  "conflict g p q =
     (q \<noteq> p \<and> same_unit (fst p) (snd p) (fst q) (snd q) \<and>
      cell_value (g ! fst p ! snd p) \<noteq> None \<and>
      cell_value (g ! fst q ! snd q) = cell_value (g ! fst p ! snd p))"

text \<open>
  A grid keeps the fixed cells of a puzzle when it is 9 by 9, its fixed cells are exactly
  the cells the puzzle fills, and each of them holds the puzzle's digit.
\<close>

definition fixed_kept :: "SudokuGrid \<Rightarrow> SudokuCell list list \<Rightarrow> bool" where
  "fixed_kept puzzle g =
     (square9 g \<and>
      (\<forall>r < 9. \<forall>c < 9. isFixed (g ! r ! c) = (puzzle ! r ! c \<noteq> None) \<and>
                         (puzzle ! r ! c \<noteq> None \<longrightarrow> cell_value (g ! r ! c) = puzzle ! r ! c)))"

text \<open>The invariants of a session: every grid it holds, the current one and the
  snapshots, keeps the fixed cells of the puzzle; and the last snapshot carries the
  current grid.\<close>

definition session_inv :: "SudokuGrid \<Rightarrow> SudokuGame \<Rightarrow> bool" where
  "session_inv puzzle s =
     (fixed_kept puzzle (grid s) \<and> (\<forall>h \<in> set (moveHistory s). fixed_kept puzzle (h_grid h)))"

definition history_top_inv :: "SudokuGame \<Rightarrow> bool" where
  "history_top_inv s = (moveHistory s \<noteq> [] \<and> h_grid (last (moveHistory s)) = grid s)"

text \<open>
  The entries of a row, of a column and of a 3 by 3 box of a raw grid (boxes are numbered
  0 to 8 in row-major order), and the absence of a repeated digit among the non-empty
  entries of a list.
\<close>

definition row_entries :: "SudokuGrid \<Rightarrow> nat \<Rightarrow> nat option list" where
  "row_entries g i = map (\<lambda>c. g ! i ! c) [0..<9]"

definition col_entries :: "SudokuGrid \<Rightarrow> nat \<Rightarrow> nat option list" where
  "col_entries g i = map (\<lambda>r. g ! r ! i) [0..<9]"

definition box_entries :: "SudokuGrid \<Rightarrow> nat \<Rightarrow> nat option list" where
  "box_entries g b =
     map (\<lambda>k. g ! (3 * (b div 3) + k div 3) ! (3 * (b mod 3) + k mod 3)) [0..<9]"

definition no_duplicate :: "nat option list \<Rightarrow> bool" where
  "no_duplicate xs = distinct (filter (\<lambda>x. x \<noteq> None) xs)"

text \<open>No two different cells of one unit hold the same digit.\<close>

definition consistent :: "SudokuGrid \<Rightarrow> bool" where
  "consistent g =
     (\<forall>r < 9. \<forall>c < 9. \<forall>r' < 9. \<forall>c' < 9.
        (r', c') \<noteq> (r, c) \<and> same_unit r c r' c' \<and> g ! r ! c \<noteq> None \<longrightarrow> g ! r' ! c' \<noteq> g ! r ! c)"

text \<open>The numbers of empty and of filled cells of a raw grid.\<close>

definition count_empty :: "SudokuGrid \<Rightarrow> nat" where
  "count_empty g = length (filter (\<lambda>x. x = None) (concat g))"

definition count_filled :: "SudokuGrid \<Rightarrow> nat" where
  "count_filled g = length (filter (\<lambda>x. x \<noteq> None) (concat g))"

section \<open>Concrete inputs\<close>

text \<open>
  A solved grid, and the puzzle that leaves its cells \<open>(0, 0)\<close> and \<open>(0, 1)\<close> empty
  (their digits are 2 and 3).
\<close>

definition solved :: SudokuGrid where
  "solved =
    [[Some 2, Some 3, Some 4, Some 5, Some 6, Some 7, Some 8, Some 9, Some 1],
     [Some 5, Some 6, Some 7, Some 8, Some 9, Some 1, Some 2, Some 3, Some 4],
     [Some 8, Some 9, Some 1, Some 2, Some 3, Some 4, Some 5, Some 6, Some 7],
     [Some 3, Some 2, Some 5, Some 4, Some 7, Some 6, Some 9, Some 1, Some 8],
     [Some 4, Some 7, Some 6, Some 9, Some 1, Some 8, Some 3, Some 2, Some 5],
     [Some 9, Some 1, Some 8, Some 3, Some 2, Some 5, Some 4, Some 7, Some 6],
     [Some 6, Some 4, Some 2, Some 7, Some 5, Some 3, Some 1, Some 8, Some 9],
     [Some 7, Some 5, Some 3, Some 1, Some 8, Some 9, Some 6, Some 4, Some 2],
     [Some 1, Some 8, Some 9, Some 6, Some 4, Some 2, Some 7, Some 5, Some 3]]"

definition puzzle2 :: SudokuGrid where
  "puzzle2 = set_cell (set_cell solved 0 0 None) 0 1 None"

text \<open>A raw grid agrees with the grid \<open>solved\<close> when each of its digits is the digit of
  \<open>solved\<close> at the same position.\<close>

definition agrees_with_solved :: "SudokuGrid \<Rightarrow> bool" where
  "agrees_with_solved g = (\<forall>r < 9. \<forall>c < 9. g ! r ! c \<noteq> None \<longrightarrow> g ! r ! c = solved ! r ! c)"

text \<open>
  Sessions on \<open>puzzle2\<close>: with the cell \<open>(0, 0)\<close> selected; with its digit entered; with
  the last empty cell selected; and solved.
\<close>

definition selected2 :: SudokuGame where
  "selected2 = run (createSession puzzle2) [Select 0 0]"

definition session2 :: SudokuGame where
  "session2 = run (createSession puzzle2) [Select 0 0, Input 2]"

definition nearly_done2 :: SudokuGame where
  "nearly_done2 = run (createSession puzzle2) [Select 0 0, Input 2, Select 0 1]"

definition completed2 :: SudokuGame where
  "completed2 = run (createSession puzzle2) [Select 0 0, Input 2, Select 0 1, Input 3]"

text \<open>The session on \<open>puzzle2\<close> after three conflicting entries into the cell \<open>(0, 0)\<close>.\<close>

definition out_of_lives2 :: SudokuGame where
  "out_of_lives2 = run (createSession puzzle2) [Select 0 0, Input 3, Input 4, Input 5]"

text \<open>
  The puzzle whose only digit is a 7 at \<open>(0, 0)\<close>, and its annotated grid after a 7 has
  been written into the cell \<open>(0, 1)\<close>.
\<close>

definition puzzle7 :: SudokuGrid where
  "puzzle7 = set_cell (replicate 9 (replicate 9 None)) 0 0 (Some 7)"

definition entered7 :: "SudokuCell list list" where
  "entered7 = replace_value (initialGrid puzzle7) 0 1 (Some 7)"

section \<open>Indexed maps and the legality checks\<close>

text \<open>
  An indexed map keeps the shape of a 9 by 9 grid and acts cell by cell. Each legality
  check scans a row, a column and a box; together the three scans visit exactly the
  positions that share a unit with \<open>(row, col)\<close>.
\<close>

lemma length_mapi [simp]: "length (mapi f xs) = length xs"
  by (simp add: mapi_def)

lemma nth_mapi [simp]: "i < length xs \<Longrightarrow> mapi f xs ! i = f (xs ! i) i"
  by (simp add: mapi_def nth_enumerate_eq)

lemma square9_nth: "square9 g \<Longrightarrow> r < 9 \<Longrightarrow> length (g ! r) = 9"
  by (simp add: square9_def)

lemma square9_I: "length g = 9 \<Longrightarrow> (\<And>r. r < 9 \<Longrightarrow> length (g ! r) = 9) \<Longrightarrow> square9 g"
  by (auto simp: square9_def in_set_conv_nth)

lemma box_range: "(row div 3 * 3 \<le> r \<and> r < row div 3 * 3 + 3) = (r div 3 = row div (3::nat))"
  by (auto simp: div_nat_eqI)

lemma box_lt9: "row < 9 \<Longrightarrow> r div 3 = row div (3::nat) \<Longrightarrow> r < 9"
  using div_less_iff_less_mult [of 3 r 3] div_less_iff_less_mult [of 3 row 3] by simp

lemma unit_scan:
  assumes "row < 9" "col < 9"
  shows "(\<not> (\<exists>c \<in> {0..<9}. P row c) \<and> \<not> (\<exists>r \<in> {0..<9}. P r col) \<and>
          \<not> (\<exists>r \<in> {row div 3 * 3..<row div 3 * 3 + 3}.
                \<exists>c \<in> {col div 3 * 3..<col div 3 * 3 + 3}. P r c))
         = (\<not> (\<exists>r < 9. \<exists>c < 9. same_unit row col r c \<and> P r c))"
    (is "?scan = (\<not> ?ex)")
proof
  assume scan: ?scan
  show "\<not> ?ex"
  proof
    assume ?ex
    then obtain r c where rc: "r < 9" "c < 9" "same_unit row col r c" "P r c" by blast
    from rc(3) consider "r = row" | "c = col" | "row div 3 = r div 3 \<and> col div 3 = c div 3"
      by (auto simp: same_unit_def)
    then show False
    proof cases
      case 1 with scan rc show False by auto
    next
      case 2 with scan rc show False by auto
    next
      case 3
      then have "r \<in> {row div 3 * 3..<row div 3 * 3 + 3}"
                "c \<in> {col div 3 * 3..<col div 3 * 3 + 3}"
        using box_range [of row r] box_range [of col c] by auto
      with scan rc(4) show False by blast
    qed
  qed
next
  assume nex: "\<not> ?ex"
  have "\<not> (\<exists>c \<in> {0..<9}. P row c)"
    using nex assms by (auto simp: same_unit_def)
  moreover have "\<not> (\<exists>r \<in> {0..<9}. P r col)"
    using nex assms by (auto simp: same_unit_def)
  moreover have "\<not> (\<exists>r \<in> {row div 3 * 3..<row div 3 * 3 + 3}.
                       \<exists>c \<in> {col div 3 * 3..<col div 3 * 3 + 3}. P r c)"
  proof
    assume "\<exists>r \<in> {row div 3 * 3..<row div 3 * 3 + 3}.
              \<exists>c \<in> {col div 3 * 3..<col div 3 * 3 + 3}. P r c"
    then obtain r c where rc: "row div 3 * 3 \<le> r \<and> r < row div 3 * 3 + 3"
        "col div 3 * 3 \<le> c \<and> c < col div 3 * 3 + 3" "P r c" by auto
    then have d: "r div 3 = row div 3" "c div 3 = col div 3"
      using box_range [of row r] box_range [of col c] by auto
    then have "r < 9" "c < 9" using assms box_lt9 by blast+
    moreover have "same_unit row col r c" using d by (simp add: same_unit_def)
    ultimately show False using rc(3) nex by blast
  qed
  ultimately show ?scan by blast
qed

lemma isValidMove_iff:
  assumes "row < 9" "col < 9"
  shows "isValidMove g row col num = (\<not> other_holds g cell_value row col num)"
proof -
  let ?P = "\<lambda>r c. (r, c) \<noteq> (row, col) \<and> cell_value (g ! r ! c) = Some num"
  have "isValidMove g row col num =
         (\<not> (\<exists>c \<in> {0..<9}. ?P row c) \<and> \<not> (\<exists>r \<in> {0..<9}. ?P r col) \<and>
          \<not> (\<exists>r \<in> {row div 3 * 3..<row div 3 * 3 + 3}.
                \<exists>c \<in> {col div 3 * 3..<col div 3 * 3 + 3}. ?P r c))"
    by (simp only: isValidMove_def Let_def list_ex_iff set_upt if_bool_eq_conj simp_thms split_paired_all prod.inject de_Morgan_conj) blast
  also have "\<dots> = (\<not> (\<exists>r < 9. \<exists>c < 9. same_unit row col r c \<and> ?P r c))"
    by (rule unit_scan [OF assms])
  also have "\<dots> = (\<not> other_holds g cell_value row col num)"
    unfolding other_holds_def by blast
  finally show ?thesis .
qed

lemma isValidPlacement_iff:
  assumes "row < 9" "col < 9"
  shows "isValidPlacement g row col num =
           (\<not> (\<exists>r < 9. \<exists>c < 9. same_unit row col r c \<and> g ! r ! c = Some num))"
proof -
  let ?P = "\<lambda>r c. g ! r ! c = Some num"
  have "isValidPlacement g row col num =
         (\<not> (\<exists>c \<in> {0..<9}. ?P row c) \<and> \<not> (\<exists>r \<in> {0..<9}. ?P r col) \<and>
          \<not> (\<exists>r \<in> {row div 3 * 3..<row div 3 * 3 + 3}.
                \<exists>c \<in> {col div 3 * 3..<col div 3 * 3 + 3}. ?P r c))"
    by (simp only: isValidPlacement_def Let_def list_ex_iff set_upt if_bool_eq_conj simp_thms) blast
  also have "\<dots> = (\<not> (\<exists>r < 9. \<exists>c < 9. same_unit row col r c \<and> ?P r c))"
    by (rule unit_scan [OF assms])
  finally show ?thesis .
qed

section \<open>The two legality checks (C10)\<close>

lemma square9_initialGrid: "square9 puzzle \<Longrightarrow> square9 (initialGrid puzzle)"
  by (simp add: square9_def initialGrid_def)

lemma nth_initialGrid:
  "r < length puzzle \<Longrightarrow> c < length (puzzle ! r) \<Longrightarrow>
     initialGrid puzzle ! r ! c =
       \<lparr>cell_value = puzzle ! r ! c, isFixed = (puzzle ! r ! c \<noteq> None), isValid = True\<rparr>"
  by (simp add: initialGrid_def)

lemma square9_puzzle2: "square9 puzzle2"
  by code_simp

text \<open>
  C10. On a 9 by 9 raw grid and an annotated grid carrying the same values, at a position
  whose cell is empty, \<^verbatim>\<open>isValidPlacement\<close> and \<^verbatim>\<open>isValidMove\<close> return the same boolean
  for every digit, and it is true exactly when no other cell in the row, the column or
  the box of the position holds the digit.
\<close>

theorem C10_legality_checks_agree:
  assumes "square9 raw" and "square9 pg"
    and "\<forall>r < 9. \<forall>c < 9. cell_value (pg ! r ! c) = raw ! r ! c"
    and "row < 9" and "col < 9" and "raw ! row ! col = None"
  shows "isValidPlacement raw row col num = isValidMove pg row col num \<and>
         isValidMove pg row col num = (\<not> other_holds raw (\<lambda>v. v) row col num)"
proof -
  have same: "other_holds pg cell_value row col num = other_holds raw (\<lambda>v. v) row col num"
    unfolding other_holds_def using assms(3) by metis
  have "(\<exists>r < 9. \<exists>c < 9. same_unit row col r c \<and> raw ! r ! c = Some num)
          = other_holds raw (\<lambda>v. v) row col num"
  proof -
    have "\<And>r c. raw ! r ! c = Some num \<Longrightarrow> (r, c) \<noteq> (row, col)"
      using assms(6) by auto
    then show ?thesis unfolding other_holds_def by blast
  qed
  then have "isValidPlacement raw row col num = (\<not> other_holds raw (\<lambda>v. v) row col num)"
    by (simp add: isValidPlacement_iff [OF assms(4,5)])
  moreover have "isValidMove pg row col num = (\<not> other_holds raw (\<lambda>v. v) row col num)"
    by (simp add: isValidMove_iff [OF assms(4,5)] same)
  ultimately show ?thesis by simp
qed

theorem C10_witness:
  "isValidPlacement puzzle2 0 1 3 \<and> isValidMove (initialGrid puzzle2) 0 1 3 \<and>
   \<not> other_holds puzzle2 (\<lambda>v. v) 0 1 3 \<and>
   \<not> isValidPlacement puzzle2 0 1 2 \<and> \<not> isValidMove (initialGrid puzzle2) 0 1 2 \<and>
   other_holds puzzle2 (\<lambda>v. v) 0 1 2"
proof -
  have sq: "square9 puzzle2" by (rule square9_puzzle2)
  have vals: "\<forall>r < 9. \<forall>c < 9. cell_value (initialGrid puzzle2 ! r ! c) = puzzle2 ! r ! c"
    using sq by (simp add: nth_initialGrid square9_def)
  have empty: "puzzle2 ! 0 ! 1 = None" by code_simp
  have yes: "isValidPlacement puzzle2 0 1 3" by code_simp
  have no: "\<not> isValidPlacement puzzle2 0 1 2" by code_simp
  show ?thesis
    using C10_legality_checks_agree [where raw = puzzle2 and pg = "initialGrid puzzle2"
          and row = 0 and col = 1 and num = 3]
      C10_legality_checks_agree [where raw = puzzle2 and pg = "initialGrid puzzle2"
          and row = 0 and col = 1 and num = 2]
      sq square9_initialGrid [OF sq] vals empty yes no
    by simp
qed

section \<open>Value entry and undo (C6)\<close>

text \<open>
  What \<^verbatim>\<open>handleNumberInput\<close> leaves in each field of the session when it is not a
  no-op, and the behaviour of \<^verbatim>\<open>handleUndo\<close>.
\<close>

lemma square9_mapi2:
  "square9 g \<Longrightarrow> square9 (mapi (\<lambda>row rowIndex. mapi (f rowIndex) row) g)"
  by (rule square9_I) (simp_all add: square9_def)

lemma nth_mapi2:
  "square9 g \<Longrightarrow> r < 9 \<Longrightarrow> c < 9 \<Longrightarrow>
     mapi (\<lambda>row rowIndex. mapi (f rowIndex) row) g ! r ! c = f r (g ! r ! c) c"
  by (simp add: square9_def)

lemma square9_replace_value: "square9 g \<Longrightarrow> square9 (replace_value g srow scol v)"
  unfolding replace_value_def by (rule square9_mapi2)

lemma nth_replace_value:
  "square9 g \<Longrightarrow> r < 9 \<Longrightarrow> c < 9 \<Longrightarrow>
     replace_value g srow scol v ! r ! c =
       (if r = srow \<and> c = scol then (g ! r ! c)\<lparr>cell_value := v\<rparr> else g ! r ! c)"
  unfolding replace_value_def by (simp add: nth_mapi2)

lemma square9_updateValidation: "square9 g \<Longrightarrow> square9 (updateValidation g)"
  unfolding updateValidation_def by (rule square9_mapi2)

lemma nth_updateValidation:
  "square9 g \<Longrightarrow> r < 9 \<Longrightarrow> c < 9 \<Longrightarrow>
     updateValidation g ! r ! c =
       (g ! r ! c)\<lparr>isValid := (case cell_value (g ! r ! c) of
                                  None \<Rightarrow> True | Some v \<Rightarrow> isValidMove g r c v)\<rparr>"
  unfolding updateValidation_def by (simp add: nth_mapi2)

lemma square9_cell_in:
  "square9 g \<Longrightarrow> r < 9 \<Longrightarrow> c < 9 \<Longrightarrow> g ! r \<in> set g \<and> g ! r ! c \<in> set (g ! r)"
  by (simp add: square9_def)

lemma handleNumberInput_noop:
  "selectedCell s = None \<or> (\<exists>row col. selectedCell s = Some (row, col) \<and> isFixed (grid s ! row ! col))
     \<Longrightarrow> handleNumberInput s num = s"
  by (auto simp: handleNumberInput_def)

lemma handleNumberInput_fields:
  fixes s :: SudokuGame and num row col :: nat
  assumes "selectedCell s = Some (row, col)" "\<not> isFixed (grid s ! row ! col)"
  defines "newValue \<equiv> (if cell_value (grid s ! row ! col) = Some num then None else Some num)"
  defines "vg \<equiv> updateValidation (replace_value (grid s) row col newValue)"
  defines "invalid \<equiv> newValue \<noteq> None \<and> \<not> isValid (vg ! row ! col)"
  defines "done \<equiv> list_all (list_all (\<lambda>cell. cell_value cell \<noteq> None)) vg \<and> list_all (list_all isValid) vg"
  shows "grid (handleNumberInput s num) = vg"
    and "lives (handleNumberInput s num) = (if invalid then max 0 (lives s - 1) else lives s)"
    and "played (handleNumberInput s num) =
           played s @ (if invalid then [ErrorSound] else if newValue \<noteq> None then [PlaceSound] else [])
                    @ (if done then [SuccessSound] else [])"
    and "isComplete (handleNumberInput s num) = (isComplete s \<or> done)"
    and "moveHistory (handleNumberInput s num) =
           moveHistory s @ [\<lparr>h_grid = vg, h_selectedCell = selectedCell s\<rparr>]"
    and "selectedCell (handleNumberInput s num) = selectedCell s"
  using assms(1,2) unfolding newValue_def vg_def invalid_def done_def
  by (simp_all add: handleNumberInput_def Let_def) blast

lemma list_all2_cells:
  "list_all (list_all P) g = (\<forall>row \<in> set g. \<forall>cell \<in> set row. P cell)"
  by (simp add: list_all_iff)

text \<open>
  C6. \<^verbatim>\<open>handleUndo\<close> on a history of exactly one entry changes nothing; on a longer
  history it drops the last snapshot, takes the grid and the selection of the new last
  snapshot, and clears \<^verbatim>\<open>isComplete\<close>.
\<close>

theorem C6_undo:
  "(length (moveHistory s) = 1 \<longrightarrow> handleUndo s = s) \<and>
   (1 < length (moveHistory s) \<longrightarrow>
      moveHistory (handleUndo s) = butlast (moveHistory s) \<and>
      moveHistory (handleUndo s) \<noteq> [] \<and>
      grid (handleUndo s) = h_grid (last (moveHistory (handleUndo s))) \<and>
      selectedCell (handleUndo s) = h_selectedCell (last (moveHistory (handleUndo s))) \<and>
      isComplete (handleUndo s) = False)"
proof (intro conjI impI)
  assume "length (moveHistory s) = 1"
  then show "handleUndo s = s" by (simp add: handleUndo_def)
next
  assume long: "1 < length (moveHistory s)"
  then have ne: "butlast (moveHistory s) \<noteq> []"
    by (cases "moveHistory s" rule: rev_cases) auto
  show "moveHistory (handleUndo s) = butlast (moveHistory s)"
    using long by (simp add: handleUndo_def Let_def)
  then show "moveHistory (handleUndo s) \<noteq> []" using ne by simp
  show "grid (handleUndo s) = h_grid (last (moveHistory (handleUndo s)))"
    using long ne by (simp add: handleUndo_def Let_def last_conv_nth)
  show "selectedCell (handleUndo s) = h_selectedCell (last (moveHistory (handleUndo s)))"
    using long ne by (simp add: handleUndo_def Let_def last_conv_nth)
  show "isComplete (handleUndo s) = False"
    using long by (simp add: handleUndo_def Let_def)
qed

theorem C6_witness:
  "length (moveHistory (createSession puzzle2)) = 1 \<and>
   handleUndo (createSession puzzle2) = createSession puzzle2 \<and>
   length (moveHistory session2) = 2 \<and>
   moveHistory (handleUndo session2) = moveHistory (createSession puzzle2) \<and>
   grid (handleUndo session2) = initialGrid puzzle2 \<and>
   selectedCell (handleUndo session2) = None \<and>
   \<not> isComplete (handleUndo session2)"
proof -
  have one: "length (moveHistory (createSession puzzle2)) = 1"
    by (simp add: createSession_def)
  have two: "length (moveHistory session2) = 2"
    by code_simp
  have pop: "butlast (moveHistory session2) = moveHistory (createSession puzzle2)"
    by code_simp
  show ?thesis
    using C6_undo [of "createSession puzzle2"] C6_undo [of session2] one two pop
    by (simp add: createSession_def)
qed

section \<open>Life accounting and completion (C3, C4)\<close>

text \<open>
  The cell just written decides both tests of the handler: if it is empty the grid is
  not full, and if it is invalid the grid is not valid, so neither case plays the
  success sound.
\<close>

lemma not_all_filled:
  assumes "square9 g" "r < 9" "c < 9" "cell_value (g ! r ! c) = None"
  shows "\<not> list_all (list_all (\<lambda>cell. cell_value cell \<noteq> None)) g"
  using square9_cell_in [OF assms(1-3)] assms(4) unfolding list_all2_cells by blast

lemma not_all_valid:
  assumes "square9 g" "r < 9" "c < 9" "\<not> isValid (g ! r ! c)"
  shows "\<not> list_all (list_all isValid) g"
  using square9_cell_in [OF assms(1-3)] assms(4) unfolding list_all2_cells by blast

lemma entered_value:
  assumes "square9 g" "row < 9" "col < 9"
  shows "cell_value (updateValidation (replace_value g row col v) ! row ! col) = v"
  using assms by (simp add: nth_updateValidation nth_replace_value square9_replace_value)

text \<open>
  C3. In a session with a selected cell that is not fixed, entering the digit the cell
  already holds empties the cell, leaves the lives alone and gives no outcome; entering
  another digit places it, and if the cell is invalid after revalidation the lives drop by
  one, not below zero, with outcome Invalid, and otherwise the lives stay and the outcome
  is Placed.
\<close>

theorem C3_life_accounting:
  assumes "square9 (grid s)" and "selectedCell s = Some (row, col)"
    and "row < 9" and "col < 9" and "\<not> isFixed (grid s ! row ! col)"
  shows "(cell_value (grid s ! row ! col) = Some num \<longrightarrow>
            cell_value (grid (handleNumberInput s num) ! row ! col) = None \<and>
            lives (handleNumberInput s num) = lives s \<and>
            outcome_of s (handleNumberInput s num) = NoOutcome) \<and>
         (cell_value (grid s ! row ! col) \<noteq> Some num \<longrightarrow>
            cell_value (grid (handleNumberInput s num) ! row ! col) = Some num \<and>
            (\<not> isValid (grid (handleNumberInput s num) ! row ! col) \<longrightarrow>
               lives (handleNumberInput s num) = max 0 (lives s - 1) \<and>
               outcome_of s (handleNumberInput s num) = Invalid) \<and>
            (isValid (grid (handleNumberInput s num) ! row ! col) \<longrightarrow>
               lives (handleNumberInput s num) = lives s \<and>
               outcome_of s (handleNumberInput s num) = Placed))"
proof -
  let ?s' = "handleNumberInput s num"
  note f = handleNumberInput_fields [OF assms(2,5), of num]
  show ?thesis
  proof (cases "cell_value (grid s ! row ! col) = Some num")
    case True
    have v: "cell_value (grid ?s' ! row ! col) = None"
      using True by (simp add: f(1) entered_value [OF assms(1,3,4)])
    have sq: "square9 (grid ?s')"
      by (simp add: f(1) square9_updateValidation square9_replace_value assms(1))
    have undone: "\<not> list_all (list_all (\<lambda>cell. cell_value cell \<noteq> None)) (grid ?s')"
      using not_all_filled [OF sq assms(3,4) v] .
    have "played ?s' = played s"
      using True undone unfolding f(1) by (simp add: f(3))
    then have "outcome_of s ?s' = NoOutcome" by (simp add: outcome_of_def)
    moreover have "lives ?s' = lives s" using True by (simp add: f(2))
    ultimately show ?thesis using True v by simp
  next
    case False
    have v: "cell_value (grid ?s' ! row ! col) = Some num"
      using False by (simp add: f(1) entered_value [OF assms(1,3,4)])
    have sq: "square9 (grid ?s')"
      by (simp add: f(1) square9_updateValidation square9_replace_value assms(1))
    have bad: "lives ?s' = max 0 (lives s - 1) \<and> outcome_of s ?s' = Invalid"
      if inv: "\<not> isValid (grid ?s' ! row ! col)"
    proof -
      have "\<not> list_all (list_all isValid) (grid ?s')"
        using not_all_valid [OF sq assms(3,4) inv] .
      then have "played ?s' = played s @ [ErrorSound]"
        using False inv unfolding f(1) by (simp add: f(3))
      then have "outcome_of s ?s' = Invalid" by (simp add: outcome_of_def)
      moreover have "lives ?s' = max 0 (lives s - 1)"
        using False inv unfolding f(1) by (simp add: f(2))
      ultimately show ?thesis by simp
    qed
    have good: "lives ?s' = lives s \<and> outcome_of s ?s' = Placed"
      if ok: "isValid (grid ?s' ! row ! col)"
    proof -
      have "played ?s' = played s @ [PlaceSound] \<or>
            played ?s' = played s @ [PlaceSound, SuccessSound]"
        using False ok unfolding f(1) by (simp add: f(3))
      then have "outcome_of s ?s' = Placed" by (auto simp: outcome_of_def)
      moreover have "lives ?s' = lives s"
        using False ok unfolding f(1) by (simp add: f(2))
      ultimately show ?thesis by simp
    qed
    show ?thesis using False v bad good by blast
  qed
qed

theorem C3_witness:
  "lives selected2 = 3 \<and>
   lives (handleNumberInput selected2 3) = 2 \<and>
   outcome_of selected2 (handleNumberInput selected2 3) = Invalid \<and>
   lives (handleNumberInput selected2 2) = 3 \<and>
   outcome_of selected2 (handleNumberInput selected2 2) = Placed \<and>
   cell_value (grid (handleNumberInput session2 2) ! 0 ! 0) = None \<and>
   lives (handleNumberInput session2 2) = 3 \<and>
   outcome_of session2 (handleNumberInput session2 2) = NoOutcome"
proof -
  have a: "square9 (grid selected2)" "selectedCell selected2 = Some (0, 0)"
    "\<not> isFixed (grid selected2 ! 0 ! 0)" "lives selected2 = 3"
    "cell_value (grid selected2 ! 0 ! 0) \<noteq> Some 3"
    "cell_value (grid selected2 ! 0 ! 0) \<noteq> Some 2"
    by code_simp+
  have b: "\<not> isValid (grid (handleNumberInput selected2 3) ! 0 ! 0)"
    "isValid (grid (handleNumberInput selected2 2) ! 0 ! 0)"
    by code_simp+
  have c: "square9 (grid session2)" "selectedCell session2 = Some (0, 0)"
    "\<not> isFixed (grid session2 ! 0 ! 0)" "lives session2 = 3"
    "cell_value (grid session2 ! 0 ! 0) = Some 2"
    by code_simp+
  show ?thesis
    using C3_life_accounting [OF a(1,2) _ _ a(3), of 3]
      C3_life_accounting [OF a(1,2) _ _ a(3), of 2]
      C3_life_accounting [OF c(1,2) _ _ c(3), of 2] a b c
    by simp
qed

text \<open>
  C4. An input on a selected cell that is not fixed leaves \<^verbatim>\<open>isComplete\<close> true exactly
  when it was true before or every cell of the resulting grid is non-empty and valid; no
  input sets it on a grid with an empty or an invalid cell; and neither an input nor a
  selection clears it, while a clear or an undo that changes the session, a reset and a
  new puzzle do.
\<close>

theorem C4_completion:
  "(selectedCell s = Some (row, col) \<and> \<not> isFixed (grid s ! row ! col) \<longrightarrow>
      isComplete (handleNumberInput s num) =
        (isComplete s \<or> all_filled (grid (handleNumberInput s num)) \<and>
                         all_valid (grid (handleNumberInput s num)))) \<and>
   (\<not> (all_filled (grid (handleNumberInput s num)) \<and> all_valid (grid (handleNumberInput s num)))
      \<longrightarrow> isComplete (handleNumberInput s num) = isComplete s) \<and>
   (isComplete s \<longrightarrow> isComplete (handleNumberInput s num) \<and> isComplete (handleCellClick s r c)) \<and>
   (handleClear s \<noteq> s \<longrightarrow> \<not> isComplete (handleClear s)) \<and>
   (handleUndo s \<noteq> s \<longrightarrow> \<not> isComplete (handleUndo s)) \<and>
   \<not> isComplete (handleReset s) \<and> \<not> isComplete (handleNewPuzzle s rnd)"
proof -
  have eff: "isComplete (handleNumberInput s num) =
        (isComplete s \<or> all_filled (grid (handleNumberInput s num)) \<and>
                         all_valid (grid (handleNumberInput s num)))"
    if "selectedCell s = Some (row, col)" "\<not> isFixed (grid s ! row ! col)" for row col
    using handleNumberInput_fields(1,4) [OF that, of num]
    by (simp add: all_filled_def all_valid_def list_all2_cells)
  have cases: "handleNumberInput s num = s \<or>
      (\<exists>row col. selectedCell s = Some (row, col) \<and> \<not> isFixed (grid s ! row ! col))"
    using handleNumberInput_noop [of s num] by (cases "selectedCell s") auto
  have keep: "isComplete (handleNumberInput s num)" if "isComplete s"
    using cases eff that by auto
  have unset: "isComplete (handleNumberInput s num) = isComplete s"
    if "\<not> (all_filled (grid (handleNumberInput s num)) \<and> all_valid (grid (handleNumberInput s num)))"
    using cases eff that by auto
  have click: "isComplete (handleCellClick s r c) = isComplete s"
    by (simp add: handleCellClick_def Let_def)
  have clear: "\<not> isComplete (handleClear s)" if "handleClear s \<noteq> s"
    using that by (auto simp: handleClear_def Let_def split: option.splits if_splits)
  have undo: "\<not> isComplete (handleUndo s)" if "handleUndo s \<noteq> s"
    using that by (auto simp: handleUndo_def Let_def split: if_splits)
  have "\<not> isComplete (handleReset s)" by (simp add: handleReset_def)
  moreover have "\<not> isComplete (handleNewPuzzle s rnd)" by (simp add: handleNewPuzzle_def Let_def)
  ultimately show ?thesis using eff keep unset click clear undo by blast
qed

theorem C4_witness:
  "\<not> isComplete nearly_done2 \<and>
   all_filled (grid (handleNumberInput nearly_done2 3)) \<and>
   all_valid (grid (handleNumberInput nearly_done2 3)) \<and>
   isComplete (handleNumberInput nearly_done2 3) \<and>
   \<not> all_valid (grid (handleNumberInput nearly_done2 4)) \<and>
   \<not> isComplete (handleNumberInput nearly_done2 4)"
proof -
  have a: "selectedCell nearly_done2 = Some (0, 1)" "\<not> isFixed (grid nearly_done2 ! 0 ! 1)"
    "\<not> isComplete nearly_done2"
    by code_simp+
  have b: "all_filled (grid (handleNumberInput nearly_done2 3))"
    "all_valid (grid (handleNumberInput nearly_done2 3))"
    "\<not> all_valid (grid (handleNumberInput nearly_done2 4))"
    by code_simp+
  show ?thesis
    using C4_completion [of nearly_done2 0 1 3] C4_completion [of nearly_done2 0 1 4] a b
    by simp
qed

section \<open>Revalidation (C2)\<close>

text \<open>
  \<^verbatim>\<open>updateValidation\<close> marks a cell invalid exactly when it is in conflict with some
  other cell of the grid.
\<close>

lemma isValid_updateValidation:
  assumes "square9 g" "r < 9" "c < 9"
  shows "isValid (updateValidation g ! r ! c) =
           (case cell_value (g ! r ! c) of None \<Rightarrow> True
            | Some v \<Rightarrow> \<not> other_holds g cell_value r c v)"
  using assms by (simp add: nth_updateValidation isValidMove_iff split: option.split)

lemma isValid_conflict:
  assumes "square9 g" "r < 9" "c < 9"
  shows "isValid (updateValidation g ! r ! c) =
           (\<not> (\<exists>r' < 9. \<exists>c' < 9. conflict g (r, c) (r', c')))"
proof (cases "cell_value (g ! r ! c)")
  case None
  then show ?thesis using assms by (simp add: isValid_updateValidation conflict_def)
next
  case (Some v)
  have "other_holds g cell_value r c v = (\<exists>r' < 9. \<exists>c' < 9. conflict g (r, c) (r', c'))"
    unfolding other_holds_def conflict_def fst_conv snd_conv using Some by simp
  then show ?thesis using assms Some by (simp add: isValid_updateValidation)
qed

text \<open>
  C2. \<^verbatim>\<open>updateValidation\<close> marks a cell valid exactly when it is empty or no other cell
  of its row, column or box holds its value. On a grid whose only conflict is one pair
  of equal digits in a row, exactly the two cells of the pair are marked invalid, and
  once one of the two is emptied every cell is marked valid.
\<close>

theorem C2_revalidation:
  assumes "square9 g"
  shows "(\<forall>r < 9. \<forall>c < 9.
            isValid (updateValidation g ! r ! c) =
              (cell_value (g ! r ! c) = None \<or>
               \<not> (\<exists>r' < 9. \<exists>c' < 9. (r', c') \<noteq> (r, c) \<and> same_unit r c r' c' \<and>
                      cell_value (g ! r' ! c') = cell_value (g ! r ! c)))) \<and>
         (\<forall>row < 9. \<forall>c1 < 9. \<forall>c2 < 9.
            c1 \<noteq> c2 \<and> conflict g (row, c1) (row, c2) \<and>
            (\<forall>r < 9. \<forall>c < 9. \<forall>r' < 9. \<forall>c' < 9. conflict g (r, c) (r', c') \<longrightarrow>
                {(r, c), (r', c')} = {(row, c1), (row, c2)})
            \<longrightarrow>
            (\<forall>r < 9. \<forall>c < 9.
               isValid (updateValidation g ! r ! c) = ((r, c) \<noteq> (row, c1) \<and> (r, c) \<noteq> (row, c2))) \<and>
            (\<forall>r < 9. \<forall>c < 9.
               isValid (updateValidation (replace_value g row c1 None) ! r ! c)))"
proof (intro conjI allI impI)
  fix r c :: nat
  assume rc: "r < 9" "c < 9"
  show "isValid (updateValidation g ! r ! c) =
          (cell_value (g ! r ! c) = None \<or>
           \<not> (\<exists>r' < 9. \<exists>c' < 9. (r', c') \<noteq> (r, c) \<and> same_unit r c r' c' \<and>
                  cell_value (g ! r' ! c') = cell_value (g ! r ! c)))"
  proof (cases "cell_value (g ! r ! c) = None")
    case True
    then show ?thesis by (simp add: isValid_conflict [OF assms rc] conflict_def)
  next
    case False
    then obtain v where "cell_value (g ! r ! c) = Some v" by auto
    then show ?thesis by (simp add: isValid_conflict [OF assms rc] conflict_def)
  qed
next
  fix row c1 c2 r c :: nat
  assume b: "row < 9" "c1 < 9" "c2 < 9" and rc: "r < 9" "c < 9"
    and h: "c1 \<noteq> c2 \<and> conflict g (row, c1) (row, c2) \<and>
            (\<forall>r < 9. \<forall>c < 9. \<forall>r' < 9. \<forall>c' < 9. conflict g (r, c) (r', c') \<longrightarrow>
                {(r, c), (r', c')} = {(row, c1), (row, c2)})"
  note pair = conjunct1 [OF conjunct2 [OF h]]
  note only = conjunct2 [OF conjunct2 [OF h], rule_format]
  have sym: "conflict g (row, c2) (row, c1)"
    using pair conjunct1 [OF h] by (simp add: conflict_def same_unit_def)
  show "isValid (updateValidation g ! r ! c) = ((r, c) \<noteq> (row, c1) \<and> (r, c) \<noteq> (row, c2))"
  proof (cases "(r, c) = (row, c1) \<or> (r, c) = (row, c2)")
    case True
    then have "\<exists>r' < 9. \<exists>c' < 9. conflict g (r, c) (r', c')"
    proof
      assume "(r, c) = (row, c1)"
      then show ?thesis using pair b by blast
    next
      assume "(r, c) = (row, c2)"
      then show ?thesis using sym b by blast
    qed
    then show ?thesis using True by (simp add: isValid_conflict [OF assms rc])
  next
    case False
    have "\<not> (\<exists>r' < 9. \<exists>c' < 9. conflict g (r, c) (r', c'))"
    proof
      assume "\<exists>r' < 9. \<exists>c' < 9. conflict g (r, c) (r', c')"
      then obtain r' c' where q: "r' < 9" "c' < 9" and cf: "conflict g (r, c) (r', c')"
        by blast
      have "{(r, c), (r', c')} = {(row, c1), (row, c2)}" by (rule only [OF rc q cf])
      then have "(r, c) = (row, c1) \<or> (r, c) = (row, c2)"
        by (simp only: doubleton_eq_iff) blast
      then show False using False by simp
    qed
    then show ?thesis using False by (simp add: isValid_conflict [OF assms rc])
  qed
next
  fix row c1 c2 r c :: nat
  assume b: "row < 9" "c1 < 9" "c2 < 9" and rc: "r < 9" "c < 9"
    and h: "c1 \<noteq> c2 \<and> conflict g (row, c1) (row, c2) \<and>
            (\<forall>r < 9. \<forall>c < 9. \<forall>r' < 9. \<forall>c' < 9. conflict g (r, c) (r', c') \<longrightarrow>
                {(r, c), (r', c')} = {(row, c1), (row, c2)})"
  note only = conjunct2 [OF conjunct2 [OF h], rule_format]
  let ?g = "replace_value g row c1 None"
  have sq: "square9 ?g" using assms by (rule square9_replace_value)
  have val: "cell_value (?g ! x ! y) = (if (x, y) = (row, c1) then None else cell_value (g ! x ! y))"
    if "x < 9" "y < 9" for x y
    using that assms by (simp add: nth_replace_value)
  have "\<not> (\<exists>r' < 9. \<exists>c' < 9. conflict ?g (r, c) (r', c'))"
  proof
    assume "\<exists>r' < 9. \<exists>c' < 9. conflict ?g (r, c) (r', c')"
    then obtain r' c' where q: "r' < 9" "c' < 9" and cf: "conflict ?g (r, c) (r', c')" by blast
    have v1: "cell_value (?g ! r ! c) \<noteq> None"
      and v2: "cell_value (?g ! r' ! c') = cell_value (?g ! r ! c)"
      and ne: "(r', c') \<noteq> (r, c)" and su: "same_unit r c r' c'"
      using cf by (simp_all add: conflict_def)
    have n1: "(r, c) \<noteq> (row, c1)"
      using v1 val [OF rc] by (cases "(r, c) = (row, c1)") simp_all
    have n2: "(r', c') \<noteq> (row, c1)"
      using v1 v2 val [OF q] by (cases "(r', c') = (row, c1)") simp_all
    have e1: "cell_value (?g ! r ! c) = cell_value (g ! r ! c)"
      using n1 val [OF rc] by auto
    have e2: "cell_value (?g ! r' ! c') = cell_value (g ! r' ! c')"
      using n2 val [OF q] by auto
    have "conflict g (r, c) (r', c')"
      using v1 v2 ne su unfolding e1 e2 by (simp add: conflict_def)
    then have "{(r, c), (r', c')} = {(row, c1), (row, c2)}" by (rule only [OF rc q])
    then have "(r, c) = (row, c1) \<or> (r', c') = (row, c1)"
      by (simp only: doubleton_eq_iff) blast
    then show False using n1 n2 by blast
  qed
  then show "isValid (updateValidation ?g ! r ! c)"
    by (simp add: isValid_conflict [OF sq rc])
qed

lemma in_all_cells: "((r, c) \<in> set all_cells) = (r < 9 \<and> c < 9)"
  by (auto simp: all_cells_def image_iff)

lemma all_cells_ball:
  "list_all (\<lambda>(r, c). P r c) all_cells \<Longrightarrow> r < 9 \<Longrightarrow> c < 9 \<Longrightarrow> P r c"
  using in_all_cells [of r c] by (auto simp: list_all_iff)

theorem C2_witness:
  "\<not> isValid (updateValidation entered7 ! 0 ! 0) \<and>
   \<not> isValid (updateValidation entered7 ! 0 ! 1) \<and>
   isValid (updateValidation entered7 ! 0 ! 2) \<and>
   isValid (updateValidation entered7 ! 4 ! 4) \<and>
   isValid (updateValidation (replace_value entered7 0 1 None) ! 0 ! 0) \<and>
   isValid (updateValidation (replace_value entered7 0 1 None) ! 0 ! 1)"
proof -
  have sq: "square9 entered7" by code_simp
  have pair: "conflict entered7 (0, 1) (0, 0)" by code_simp
  have "list_all (\<lambda>(r, c). cell_value (entered7 ! r ! c) \<noteq> None \<longrightarrow> r = 0 \<and> (c = 0 \<or> c = 1))
          all_cells"
    by code_simp
  then have sparse: "cell_value (entered7 ! r ! c) \<noteq> None \<Longrightarrow> r = 0 \<and> (c = 0 \<or> c = 1)"
    if "r < 9" "c < 9" for r c
    using all_cells_ball [where P = "\<lambda>r c. cell_value (entered7 ! r ! c) \<noteq> None \<longrightarrow> r = 0 \<and> (c = 0 \<or> c = 1)"] that
    by blast
  have only: "\<forall>r < 9. \<forall>c < 9. \<forall>r' < 9. \<forall>c' < 9. conflict entered7 (r, c) (r', c') \<longrightarrow>
                {(r, c), (r', c')} = {(0, 1), (0, 0)}"
  proof (intro allI impI)
    fix r c r' c' :: nat
    assume b: "r < 9" "c < 9" "r' < 9" "c' < 9" and cf: "conflict entered7 (r, c) (r', c')"
    have "cell_value (entered7 ! r ! c) \<noteq> None" "cell_value (entered7 ! r' ! c') \<noteq> None"
      "(r', c') \<noteq> (r, c)"
      using cf by (simp_all add: conflict_def)
    then have "r = 0 \<and> (c = 0 \<or> c = 1)" "r' = 0 \<and> (c' = 0 \<or> c' = 1)" "(r', c') \<noteq> (r, c)"
      using sparse b by blast+
    then show "{(r, c), (r', c')} = {(0, 1), (0, 0)}" by auto
  qed
  have hyp: "(1::nat) \<noteq> 0 \<and> conflict entered7 (0, 1) (0, 0) \<and>
      (\<forall>r < 9. \<forall>c < 9. \<forall>r' < 9. \<forall>c' < 9. conflict entered7 (r, c) (r', c') \<longrightarrow>
          {(r, c), (r', c')} = {(0, 1), (0, 0)})"
    by (intro conjI) (simp, rule pair, rule only)
  have res: "(\<forall>r < 9. \<forall>c < 9.
        isValid (updateValidation entered7 ! r ! c) = ((r, c) \<noteq> (0, 1) \<and> (r, c) \<noteq> (0, 0))) \<and>
      (\<forall>r < 9. \<forall>c < 9. isValid (updateValidation (replace_value entered7 0 1 None) ! r ! c))"
    by (rule C2_revalidation [OF sq, THEN conjunct2, rule_format, of 0 1 0]) (simp, simp, simp, rule hyp)
  note marked = res [THEN conjunct1, rule_format]
  note restored = res [THEN conjunct2, rule_format]
  show ?thesis
    using marked [of 0 0] marked [of 0 1] marked [of 0 2] marked [of 4 4]
      restored [of 0 0] restored [of 0 1]
    by simp
qed

section \<open>Fixed cells, history and blocked entry (C5, C7, C8)\<close>

text \<open>
  Every handler preserves \<open>session_inv\<close> and \<open>history_top_inv\<close>, hence so does every
  sequence of operations.
\<close>

lemma fixed_kept_initialGrid: "square9 puzzle \<Longrightarrow> fixed_kept puzzle (initialGrid puzzle)"
proof -
  assume sq: "square9 puzzle"
  then have "\<And>r c. r < 9 \<Longrightarrow> c < 9 \<Longrightarrow> initialGrid puzzle ! r ! c =
      \<lparr>cell_value = puzzle ! r ! c, isFixed = (puzzle ! r ! c \<noteq> None), isValid = True\<rparr>"
    by (simp add: nth_initialGrid square9_def)
  then show ?thesis using square9_initialGrid [OF sq] by (simp add: fixed_kept_def)
qed

lemma fixed_kept_updateValidation:
  "fixed_kept puzzle g \<Longrightarrow> fixed_kept puzzle (updateValidation g)"
  by (simp add: fixed_kept_def square9_updateValidation nth_updateValidation)

lemma fixed_kept_replace_value:
  assumes "fixed_kept puzzle g" "\<not> isFixed (g ! srow ! scol)"
  shows "fixed_kept puzzle (replace_value g srow scol v)"
  unfolding fixed_kept_def
proof (intro conjI allI impI)
  show "square9 (replace_value g srow scol v)"
    using assms(1) by (simp add: fixed_kept_def square9_replace_value)
next
  fix r c :: nat
  assume rc: "r < 9" "c < 9"
  have sq: "square9 g" using assms(1) by (simp add: fixed_kept_def)
  have old: "isFixed (g ! r ! c) = (puzzle ! r ! c \<noteq> None)"
    "puzzle ! r ! c \<noteq> None \<longrightarrow> cell_value (g ! r ! c) = puzzle ! r ! c"
    using assms(1) rc by (simp_all add: fixed_kept_def)
  show "isFixed (replace_value g srow scol v ! r ! c) = (puzzle ! r ! c \<noteq> None)"
    using old(1) by (auto simp: nth_replace_value [OF sq rc])
  assume filled: "puzzle ! r ! c \<noteq> None"
  then have "isFixed (g ! r ! c)" using old(1) by simp
  then have "\<not> (r = srow \<and> c = scol)" using assms(2) by auto
  then show "cell_value (replace_value g srow scol v ! r ! c) = puzzle ! r ! c"
    using old(2) filled by (auto simp: nth_replace_value [OF sq rc])
qed

lemma session_inv_createSession: "square9 puzzle \<Longrightarrow> session_inv puzzle (createSession puzzle)"
  by (simp add: session_inv_def createSession_def initial_state_def fixed_kept_initialGrid)

lemma session_inv_handleCellClick:
  "session_inv puzzle s \<Longrightarrow> session_inv puzzle (handleCellClick s row col)"
  by (simp add: session_inv_def handleCellClick_def Let_def)

lemma session_inv_handleNumberInput:
  assumes "session_inv puzzle s"
  shows "session_inv puzzle (handleNumberInput s num)"
proof (cases "handleNumberInput s num = s")
  case True
  then show ?thesis using assms by simp
next
  case False
  then obtain row col where sel: "selectedCell s = Some (row, col)"
    and free: "\<not> isFixed (grid s ! row ! col)"
    using handleNumberInput_noop [of s num] by (cases "selectedCell s") auto
  note f = handleNumberInput_fields [OF sel free, of num]
  have "fixed_kept puzzle (grid (handleNumberInput s num))"
    unfolding f(1) using assms free
    by (simp add: session_inv_def fixed_kept_updateValidation fixed_kept_replace_value)
  then show ?thesis
    using assms unfolding session_inv_def f(5) by (auto simp: f(1))
qed

lemma session_inv_handleClear:
  assumes "session_inv puzzle s"
  shows "session_inv puzzle (handleClear s)"
proof (cases "selectedCell s")
  case None
  then show ?thesis using assms by (simp add: handleClear_def)
next
  case (Some p)
  obtain row col where p: "p = (row, col)" by (cases p)
  show ?thesis
  proof (cases "isFixed (grid s ! row ! col)")
    case True
    then show ?thesis using assms Some p by (simp add: handleClear_def)
  next
    case False
    have "fixed_kept puzzle (updateValidation (replace_value (grid s) row col None))"
      using assms False
      by (simp add: session_inv_def fixed_kept_updateValidation fixed_kept_replace_value)
    then show ?thesis
      using assms Some p False by (simp add: handleClear_def session_inv_def Let_def)
  qed
qed

lemma session_inv_handleUndo:
  assumes "session_inv puzzle s"
  shows "session_inv puzzle (handleUndo s)"
proof (cases "length (moveHistory s) \<le> 1")
  case True
  then show ?thesis using assms by (simp add: handleUndo_def)
next
  case False
  let ?h = "butlast (moveHistory s)"
  have ne: "?h \<noteq> []" using False by (cases "moveHistory s" rule: rev_cases) auto
  then have "length ?h - 1 < length ?h" by (cases ?h) simp_all
  then have "?h ! (length ?h - 1) \<in> set ?h" by (rule nth_mem)
  then have top: "?h ! (length ?h - 1) \<in> set (moveHistory s)" by (rule in_set_butlastD)
  have rest: "\<forall>h \<in> set ?h. fixed_kept puzzle (h_grid h)"
    using assms by (auto simp: session_inv_def dest: in_set_butlastD)
  show ?thesis
    using False assms top rest by (simp add: handleUndo_def Let_def session_inv_def)
qed

lemma session_inv_perform: "session_inv puzzle s \<Longrightarrow> session_inv puzzle (perform a s)"
  by (cases a)
     (simp_all add: session_inv_handleCellClick session_inv_handleNumberInput
        session_inv_handleClear session_inv_handleUndo)

lemma session_inv_run: "session_inv puzzle s \<Longrightarrow> session_inv puzzle (run s acts)"
  unfolding run_def by (induction acts arbitrary: s) (simp_all add: session_inv_perform)

text \<open>
  C5. After any sequence of select, input, clear and undo operations on a session created
  from a 9 by 9 puzzle, every cell that was created fixed is still fixed and holds its
  original value.
\<close>

theorem C5_fixed_cells_immutable:
  assumes "square9 puzzle" and "r < 9" and "c < 9"
    and "isFixed (grid (createSession puzzle) ! r ! c)"
  shows "isFixed (grid (run (createSession puzzle) acts) ! r ! c) \<and>
         cell_value (grid (run (createSession puzzle) acts) ! r ! c)
           = cell_value (grid (createSession puzzle) ! r ! c)"
proof -
  have start: "fixed_kept puzzle (grid (createSession puzzle))"
    using session_inv_createSession [OF assms(1)] by (simp add: session_inv_def)
  have "session_inv puzzle (run (createSession puzzle) acts)"
    using session_inv_createSession [OF assms(1)] by (rule session_inv_run)
  then have now: "fixed_kept puzzle (grid (run (createSession puzzle) acts))"
    by (simp add: session_inv_def)
  have filled: "puzzle ! r ! c \<noteq> None"
    using start assms(2-4) by (simp add: fixed_kept_def)
  show ?thesis
    using start now filled assms(2,3) by (simp add: fixed_kept_def)
qed

theorem C5_witness:
  "isFixed (grid (createSession puzzle2) ! 0 ! 2) \<and>
   cell_value (grid (createSession puzzle2) ! 0 ! 2) = Some 4 \<and>
   isFixed (grid (run (createSession puzzle2)
              [Select 0 2, Input 7, Select 0 0, Input 4, Clear, Input 2, Undo]) ! 0 ! 2) \<and>
   cell_value (grid (run (createSession puzzle2)
              [Select 0 2, Input 7, Select 0 0, Input 4, Clear, Input 2, Undo]) ! 0 ! 2) = Some 4"
proof -
  have a: "isFixed (grid (createSession puzzle2) ! 0 ! 2)"
    "cell_value (grid (createSession puzzle2) ! 0 ! 2) = Some 4"
    by code_simp+
  show ?thesis
    using C5_fixed_cells_immutable [OF square9_puzzle2 _ _ a(1),
        of "[Select 0 2, Input 7, Select 0 0, Input 4, Clear, Input 2, Undo]"] a
    by simp
qed

text \<open>
  The claim C7 as stated fails: \<^verbatim>\<open>handleCellClick\<close> changes the selection and pushes no
  snapshot, so after a selection the last snapshot still carries the old selection.
\<close>

theorem C7_counterexample:
  "\<not> (moveHistory selected2 \<noteq> [] \<and>
       last (moveHistory selected2) =
         \<lparr>h_grid = grid selected2, h_selectedCell = selectedCell selected2\<rparr>)"
proof -
  have "h_selectedCell (last (moveHistory selected2)) = None" by code_simp
  moreover have "selectedCell selected2 = Some (0, 0)" by code_simp
  ultimately show ?thesis by auto
qed

lemma history_top_inv_perform: "history_top_inv s \<Longrightarrow> history_top_inv (perform a s)"
proof (cases a)
  case (Select row col)
  assume "history_top_inv s"
  then show ?thesis using Select by (simp add: history_top_inv_def handleCellClick_def Let_def)
next
  case (Input num)
  assume inv: "history_top_inv s"
  show ?thesis
  proof (cases "handleNumberInput s num = s")
    case True
    then show ?thesis using inv Input by simp
  next
    case False
    then obtain row col where sel: "selectedCell s = Some (row, col)"
      and free: "\<not> isFixed (grid s ! row ! col)"
      using handleNumberInput_noop [of s num] by (cases "selectedCell s") auto
    show ?thesis
      using handleNumberInput_fields(1,5) [OF sel free, of num] Input
      by (simp add: history_top_inv_def)
  qed
next
  case Clear
  assume "history_top_inv s"
  then show ?thesis
    using Clear
    by (auto simp: history_top_inv_def handleClear_def Let_def split: option.splits)
next
  case Undo
  assume inv: "history_top_inv s"
  show ?thesis
  proof (cases "length (moveHistory s) \<le> 1")
    case True
    then show ?thesis using inv Undo by (simp add: handleUndo_def)
  next
    case False
    then have "butlast (moveHistory s) \<noteq> []"
      by (cases "moveHistory s" rule: rev_cases) auto
    then show ?thesis
      using False Undo by (simp add: history_top_inv_def handleUndo_def Let_def last_conv_nth)
  qed
qed

lemma history_top_inv_run: "history_top_inv s \<Longrightarrow> history_top_inv (run s acts)"
  unfolding run_def by (induction acts arbitrary: s) (simp_all add: history_top_inv_perform)

lemma snapshot_selection:
  assumes "\<And>row col. a \<noteq> Select row col" "perform a s \<noteq> s"
  shows "h_selectedCell (last (moveHistory (perform a s))) = selectedCell (perform a s)"
proof (cases a)
  case (Select r c)
  then show ?thesis using assms(1) by simp
next
  case (Input num)
  then have "handleNumberInput s num \<noteq> s" using assms(2) by simp
  then obtain row col where sel: "selectedCell s = Some (row, col)"
    and free: "\<not> isFixed (grid s ! row ! col)"
    using handleNumberInput_noop [of s num] by (cases "selectedCell s") auto
  show ?thesis
    using handleNumberInput_fields(5,6) [OF sel free, of num] Input by simp
next
  case Clear
  then show ?thesis
    using assms(2) by (auto simp: handleClear_def Let_def split: option.splits if_splits)
next
  case Undo
  then have long: "\<not> length (moveHistory s) \<le> 1" using assms(2) by (auto simp: handleUndo_def)
  then have "butlast (moveHistory s) \<noteq> []"
    by (cases "moveHistory s" rule: rev_cases) auto
  then show ?thesis
    using long Undo by (simp add: handleUndo_def Let_def last_conv_nth)
qed

text \<open>
  C7, amended. In every state reached from session creation by select, input, clear and
  undo operations, the history is non-empty and the grid of its last snapshot is the
  current grid; and right after an input, a clear or an undo that changes the session,
  the selection of the last snapshot is the current selection.
\<close>

theorem C7_history_top:
  "moveHistory (run (createSession puzzle) acts) \<noteq> [] \<and>
   h_grid (last (moveHistory (run (createSession puzzle) acts)))
     = grid (run (createSession puzzle) acts) \<and>
   ((\<forall>row col. a \<noteq> Select row col) \<and>
    perform a (run (createSession puzzle) acts) \<noteq> run (createSession puzzle) acts \<longrightarrow>
      h_selectedCell (last (moveHistory (perform a (run (createSession puzzle) acts))))
        = selectedCell (perform a (run (createSession puzzle) acts)))"
proof -
  have "history_top_inv (createSession puzzle)"
    by (simp add: history_top_inv_def createSession_def)
  then have "history_top_inv (run (createSession puzzle) acts)"
    by (rule history_top_inv_run)
  then show ?thesis
    using snapshot_selection [of a "run (createSession puzzle) acts"]
    by (auto simp: history_top_inv_def)
qed

theorem C7_witness:
  "moveHistory selected2 \<noteq> [] \<and> h_grid (last (moveHistory selected2)) = grid selected2 \<and>
   perform (Input 2) selected2 \<noteq> selected2 \<and>
   h_selectedCell (last (moveHistory (perform (Input 2) selected2))) = Some (0, 0) \<and>
   selectedCell (perform (Input 2) selected2) = Some (0, 0)"
proof -
  have a: "selectedCell (perform (Input 2) selected2) = Some (0, 0)"
    "length (moveHistory (perform (Input 2) selected2)) \<noteq> length (moveHistory selected2)"
    by code_simp+
  then have "perform (Input 2) selected2 \<noteq> selected2" by auto
  then show ?thesis
    using C7_history_top [of puzzle2 "[Select 0 0]" "Input 2"] a
    by (simp add: selected2_def)
qed

text \<open>
  The claim C8 as stated fails: \<^verbatim>\<open>handleNumberInput\<close> tests neither \<^verbatim>\<open>isComplete\<close> nor
  \<^verbatim>\<open>lives\<close>. In the session below the puzzle is solved, three lives are left, and
  entering the digit of the selected cell again empties it.
\<close>

theorem C8_counterexample:
  "isComplete completed2 \<and> lives completed2 = 3 \<and>
   cell_value (grid completed2 ! 0 ! 1) = Some 3 \<and>
   cell_value (grid (handleNumberInput completed2 3) ! 0 ! 1) = None"
  by code_simp

text \<open>
  C8, amended. Completion does not block value entry. In a session with lives left and a
  selected cell that is not fixed, whether or not \<^verbatim>\<open>isComplete\<close> is set, an input sets
  the selected cell to the digit, or empties it when it holds the digit already, and
  leaves the value of every other cell as it was. An input changes nothing when no cell
  is selected or the selected cell is fixed.
\<close>

theorem C8_entry_not_blocked:
  assumes "square9 (grid s)" and "lives s \<noteq> 0"
  shows "(selectedCell s = Some (row, col) \<and> row < 9 \<and> col < 9 \<and> \<not> isFixed (grid s ! row ! col) \<longrightarrow>
            cell_value (grid (handleNumberInput s num) ! row ! col) =
              (if cell_value (grid s ! row ! col) = Some num then None else Some num) \<and>
            (\<forall>r < 9. \<forall>c < 9. (r, c) \<noteq> (row, col) \<longrightarrow>
               cell_value (grid (handleNumberInput s num) ! r ! c) = cell_value (grid s ! r ! c))) \<and>
         (selectedCell s = None \<or> (selectedCell s = Some (row, col) \<and> isFixed (grid s ! row ! col)) \<longrightarrow>
            handleNumberInput s num = s)"
proof (intro conjI impI allI)
  assume h: "selectedCell s = Some (row, col) \<and> row < 9 \<and> col < 9 \<and> \<not> isFixed (grid s ! row ! col)"
  then have sel: "selectedCell s = Some (row, col)" and b: "row < 9" "col < 9"
    and free: "\<not> isFixed (grid s ! row ! col)"
    by simp_all
  note f = handleNumberInput_fields(1) [OF sel free, of num]
  show "cell_value (grid (handleNumberInput s num) ! row ! col) =
          (if cell_value (grid s ! row ! col) = Some num then None else Some num)"
    unfolding f by (rule entered_value [OF assms(1) b])
  fix r c :: nat
  assume rc: "r < 9" "c < 9" and other: "(r, c) \<noteq> (row, col)"
  show "cell_value (grid (handleNumberInput s num) ! r ! c) = cell_value (grid s ! r ! c)"
    unfolding f using other
    by (auto simp: nth_updateValidation [OF square9_replace_value [OF assms(1)] rc]
          nth_replace_value [OF assms(1) rc])
next
  assume "selectedCell s = None \<or> (selectedCell s = Some (row, col) \<and> isFixed (grid s ! row ! col))"
  then show "handleNumberInput s num = s"
    using handleNumberInput_noop [of s num] by blast
qed

theorem C8_witness:
  "isComplete completed2 \<and>
   cell_value (grid (handleNumberInput completed2 5) ! 0 ! 1) = Some 5 \<and>
   cell_value (grid (handleNumberInput completed2 5) ! 0 ! 0) = Some 2 \<and>
   handleNumberInput (createSession puzzle2) 5 = createSession puzzle2"
proof -
  have a: "square9 (grid completed2)" "lives completed2 \<noteq> 0" "isComplete completed2"
    "selectedCell completed2 = Some (0, 1)" "\<not> isFixed (grid completed2 ! 0 ! 1)"
    "cell_value (grid completed2 ! 0 ! 1) \<noteq> Some 5" "cell_value (grid completed2 ! 0 ! 0) = Some 2"
    by code_simp+
  have b: "square9 (grid (createSession puzzle2))" "lives (createSession puzzle2) \<noteq> 0"
    "selectedCell (createSession puzzle2) = None"
    by code_simp+
  have c: "(0::nat, 0::nat) \<noteq> (0, 1)" by simp
  show ?thesis
    using C8_entry_not_blocked [OF a(1,2), of 0 1 5] C8_entry_not_blocked [OF b(1,2), of 0 1 5]
      a b c
    by simp
qed

text \<open>
  With no lives left the number buttons are disabled, but a key press still changes the
  selected cell: the keyboard path has no test of \<^verbatim>\<open>lives\<close>.
\<close>

lemma keyboard_entry_without_lives:
  "lives out_of_lives2 = 0 \<and> number_buttons_disabled out_of_lives2 \<and>
   cell_value (grid out_of_lives2 ! 0 ! 0) = Some 5 \<and>
   cell_value (grid (handleKeyPress out_of_lives2 (Some 2)) ! 0 ! 0) = Some 2"
  by code_simp

section \<open>The generated grid is valid (C1)\<close>

text \<open>
  Consistency is an invariant of the generator: a digit is written only where
  \<^verbatim>\<open>isValidPlacement\<close> found none of its units holding it, and emptying a cell cannot
  create a repetition. A consistent grid has no repeated digit in any row, column or box.
\<close>

lemma consistentD:
  "consistent g \<Longrightarrow> r < 9 \<Longrightarrow> c < 9 \<Longrightarrow> r' < 9 \<Longrightarrow> c' < 9 \<Longrightarrow> (r', c') \<noteq> (r, c) \<Longrightarrow>
     same_unit r c r' c' \<Longrightarrow> g ! r ! c \<noteq> None \<Longrightarrow> g ! r' ! c' \<noteq> g ! r ! c"
  unfolding consistent_def by blast

lemma no_duplicate_map:
  assumes "distinct xs"
    and "\<And>x y. x \<in> set xs \<Longrightarrow> y \<in> set xs \<Longrightarrow> x \<noteq> y \<Longrightarrow> f x \<noteq> None \<Longrightarrow> f y \<noteq> f x"
  shows "no_duplicate (map f xs)"
proof -
  have "inj_on f (set (filter (\<lambda>x. f x \<noteq> None) xs))"
    using assms(2) by (auto simp: inj_on_def)
  then have "distinct (map f (filter (\<lambda>x. f x \<noteq> None) xs))"
    using assms(1) by (simp add: distinct_map)
  then show ?thesis by (simp add: no_duplicate_def filter_map comp_def)
qed

lemma box_index:
  fixes b k :: nat
  assumes "b < 9" "k < 9"
  shows "3 * (b div 3) + k div 3 < 9" "3 * (b mod 3) + k mod 3 < 9"
    "(3 * (b div 3) + k div 3) div 3 = b div 3" "(3 * (b mod 3) + k mod 3) div 3 = b mod 3"
proof -
  have "b div 3 < 3" "k div 3 < 3"
    using assms div_less_iff_less_mult [of 3 b 3] div_less_iff_less_mult [of 3 k 3] by simp_all
  then show "3 * (b div 3) + k div 3 < 9" by linarith
  have "b mod 3 < 3" "k mod 3 < 3" by simp_all
  then show "3 * (b mod 3) + k mod 3 < 9" by linarith
  show "(3 * (b div 3) + k div 3) div 3 = b div 3"
    using \<open>k div 3 < 3\<close> by simp
  show "(3 * (b mod 3) + k mod 3) div 3 = b mod 3"
    by simp
qed

lemma consistent_units:
  assumes "consistent g" "i < 9"
  shows "no_duplicate (row_entries g i)" "no_duplicate (col_entries g i)"
    "no_duplicate (box_entries g i)"
proof -
  show "no_duplicate (row_entries g i)"
    unfolding row_entries_def
  proof (rule no_duplicate_map)
    fix x y assume "x \<in> set [0..<9]" "y \<in> set [0..<9]" "x \<noteq> y" "g ! i ! x \<noteq> None"
    then show "g ! i ! y \<noteq> g ! i ! x"
      using consistentD [OF assms(1), of i x i y] assms(2) by (simp add: same_unit_def)
  qed simp
  show "no_duplicate (col_entries g i)"
    unfolding col_entries_def
  proof (rule no_duplicate_map)
    fix x y assume "x \<in> set [0..<9]" "y \<in> set [0..<9]" "x \<noteq> y" "g ! x ! i \<noteq> None"
    then show "g ! y ! i \<noteq> g ! x ! i"
      using consistentD [OF assms(1), of x i y i] assms(2) by (simp add: same_unit_def)
  qed simp
  show "no_duplicate (box_entries g i)"
    unfolding box_entries_def
  proof (rule no_duplicate_map)
    fix x y assume xy: "x \<in> set [0..<9]" "y \<in> set [0..<9]" "x \<noteq> y"
      and v: "g ! (3 * (i div 3) + x div 3) ! (3 * (i mod 3) + x mod 3) \<noteq> None"
    have x9: "x < 9" and y9: "y < 9" using xy by simp_all
    note bx = box_index [OF assms(2) x9] and by' = box_index [OF assms(2) y9]
    have differ: "(3 * (i div 3) + y div 3, 3 * (i mod 3) + y mod 3)
                    \<noteq> (3 * (i div 3) + x div 3, 3 * (i mod 3) + x mod 3)"
    proof
      assume "(3 * (i div 3) + y div 3, 3 * (i mod 3) + y mod 3)
                = (3 * (i div 3) + x div 3, 3 * (i mod 3) + x mod 3)"
      then have "y div 3 = x div 3" "y mod 3 = x mod 3" by simp_all
      then have "y = x" by (metis div_mult_mod_eq)
      then show False using xy(3) by simp
    qed
    have "same_unit (3 * (i div 3) + x div 3) (3 * (i mod 3) + x mod 3)
            (3 * (i div 3) + y div 3) (3 * (i mod 3) + y mod 3)"
      unfolding same_unit_def bx(3,4) by' (3,4) by simp
    then show "g ! (3 * (i div 3) + y div 3) ! (3 * (i mod 3) + y mod 3)
                 \<noteq> g ! (3 * (i div 3) + x div 3) ! (3 * (i mod 3) + x mod 3)"
      using consistentD [OF assms(1) bx(1,2) by' (1,2) differ _ v] by simp
  qed simp
qed

lemma nth_set_cell:
  "square9 g \<Longrightarrow> r' < 9 \<Longrightarrow> c' < 9 \<Longrightarrow>
     set_cell g r c v ! r' ! c' = (if (r', c') = (r, c) then v else g ! r' ! c')"
  by (cases "r < 9"; cases "r' = r")
     (auto simp: set_cell_def square9_def nth_list_update list_update_beyond)

lemma square9_set_cell: "square9 g \<Longrightarrow> square9 (set_cell g r c v)"
proof (rule square9_I)
  fix x :: nat
  assume "square9 g" "x < 9"
  then show "length (set_cell g r c v ! x) = 9"
    by (cases "r < 9"; cases "x = r")
       (auto simp: set_cell_def square9_def nth_list_update list_update_beyond)
qed (simp add: set_cell_def square9_def)

lemma same_unit_sym: "same_unit r c r' c' = same_unit r' c' r c"
  by (auto simp: same_unit_def)

lemma consistent_place:
  assumes "consistent g" "square9 g" "r < 9" "c < 9" "isValidPlacement g r c num"
  shows "consistent (set_cell g r c (Some num))"
  unfolding consistent_def
proof (intro allI impI)
  fix x y x' y' :: nat
  assume b: "x < 9" "y < 9" "x' < 9" "y' < 9"
    and h: "(x', y') \<noteq> (x, y) \<and> same_unit x y x' y' \<and> set_cell g r c (Some num) ! x ! y \<noteq> None"
  have free: "\<And>p q. p < 9 \<Longrightarrow> q < 9 \<Longrightarrow> same_unit r c p q \<Longrightarrow> g ! p ! q \<noteq> Some num"
    using assms(5) unfolding isValidPlacement_iff [OF assms(3,4)] by blast
  show "set_cell g r c (Some num) ! x' ! y' \<noteq> set_cell g r c (Some num) ! x ! y"
  proof (cases "(x, y) = (r, c)")
    case True
    then have "(x', y') \<noteq> (r, c)" "same_unit r c x' y'" using h by auto
    then show ?thesis
      using True free [OF b(3,4)] b by (auto simp: nth_set_cell [OF assms(2)])
  next
    case False
    then have old: "g ! x ! y \<noteq> None"
      using h b by (auto simp: nth_set_cell [OF assms(2)] split: if_splits)
    show ?thesis
    proof (cases "(x', y') = (r, c)")
      case True
      then have "same_unit r c x y" using h same_unit_sym by auto
      then have "g ! x ! y \<noteq> Some num" using free [OF b(1,2)] by simp
      then show ?thesis using True False b by (auto simp: nth_set_cell [OF assms(2)])
    next
      case other: False
      have "g ! x' ! y' \<noteq> g ! x ! y"
        using consistentD [OF assms(1) b _ _ old] h by blast
      then show ?thesis using False other b by (auto simp: nth_set_cell [OF assms(2)])
    qed
  qed
qed

lemma consistent_clear:
  assumes "consistent g" "square9 g"
  shows "consistent (set_cell g r c None)"
  unfolding consistent_def
proof (intro allI impI)
  fix x y x' y' :: nat
  assume b: "x < 9" "y < 9" "x' < 9" "y' < 9"
    and h: "(x', y') \<noteq> (x, y) \<and> same_unit x y x' y' \<and> set_cell g r c None ! x ! y \<noteq> None"
  have old: "g ! x ! y \<noteq> None" "(x, y) \<noteq> (r, c)"
    using h b by (auto simp: nth_set_cell [OF assms(2)] split: if_splits)
  have "g ! x' ! y' \<noteq> g ! x ! y"
    using consistentD [OF assms(1) b _ _ old(1)] h by blast
  then show "set_cell g r c None ! x' ! y' \<noteq> set_cell g r c None ! x ! y"
    using old b by (auto simp: nth_set_cell [OF assms(2)])
qed

lemma fill_keeps:
  "square9 g \<Longrightarrow> consistent g \<Longrightarrow>
     square9 (fst (snd (fillGrid g rnd))) \<and> consistent (fst (snd (fillGrid g rnd)))"
  "square9 g \<Longrightarrow> consistent g \<Longrightarrow> r < 9 \<Longrightarrow> c < 9 \<Longrightarrow>
     square9 (fst (snd (try_numbers g r c nums rnd))) \<and>
     consistent (fst (snd (try_numbers g r c nums rnd)))"
proof (induct g rnd and g r c nums rnd rule: fillGrid_try_numbers.induct)
  case (1 grid rnd)
  show ?case
  proof (cases "first_null grid")
    case None
    then show ?thesis using 1(2,3) by (simp add: fillGrid.simps)
  next
    case (Some p)
    obtain row col where p: "p = (row, col)" by (cases p)
    obtain numbers rnd'
      where sh: "shuffleArray [1::nat, 2, 3, 4, 5, 6, 7, 8, 9] rnd = (numbers, rnd')"
      by (cases "shuffleArray [1::nat, 2, 3, 4, 5, 6, 7, 8, 9] rnd")
    have eq: "fillGrid grid rnd = try_numbers grid row col numbers rnd'"
      using Some p sh by (simp add: fillGrid.simps)
    have "(row, col) \<in> set all_cells" using Some p first_null_Some by blast
    then have b: "row < 9" "col < 9" by (simp_all add: in_all_cells)
    show ?thesis
      unfolding eq by (rule 1(1) [OF Some p [symmetric] refl sh [symmetric] 1(2,3) b])
  qed
next
  case (2 grid row col rnd)
  then show ?case by simp
next
  case (3 grid row col num nums rnd)
  show ?case
  proof (cases "isValidPlacement grid row col num")
    case False
    then show ?thesis using 3(3) [OF False 3(4-7)] by simp
  next
    case True
    let ?res = "fillGrid (set_cell grid row col (Some num)) rnd"
    have placed: "square9 (set_cell grid row col (Some num))"
      "consistent (set_cell grid row col (Some num))"
      using 3(4-7) True by (simp_all add: square9_set_cell consistent_place)
    note after = 3(1) [OF True placed]
    show ?thesis
    proof (cases "fst ?res")
      case filled: True
      then show ?thesis using True after by (simp add: Let_def)
    next
      case failed: False
      have cleared: "square9 (set_cell (fst (snd ?res)) row col None)"
        "consistent (set_cell (fst (snd ?res)) row col None)"
        using after by (simp_all add: square9_set_cell consistent_clear)
      show ?thesis
        using 3(2) [OF True refl failed cleared 3(6,7)] True failed by (simp add: Let_def)
    qed
  qed
qed

lemma fold_clear_keeps:
  "square9 g \<Longrightarrow> consistent g \<Longrightarrow>
     square9 (fold (\<lambda>(row, col) g. set_cell g row col None) ps g) \<and>
     consistent (fold (\<lambda>(row, col) g. set_cell g row col None) ps g)"
  by (induction ps arbitrary: g) (auto simp: square9_set_cell consistent_clear)

lemma square9_empty: "square9 (replicate 9 (replicate 9 None))"
  by (simp add: square9_def)

lemma consistent_empty: "consistent (replicate 9 (replicate 9 None))"
  by (simp add: consistent_def)

lemma generated_keeps:
  "square9 (generateRandomSudoku rnd) \<and> consistent (generateRandomSudoku rnd)"
proof -
  obtain filled grid1 rnd1
    where f: "fillGrid (replicate 9 (replicate 9 None)) rnd = (filled, grid1, rnd1)"
    by (cases "fillGrid (replicate 9 (replicate 9 None)) rnd") auto
  obtain k rnd2 where k: "random_below 6 rnd1 = (k, rnd2)" by (cases "random_below 6 rnd1")
  obtain cells rnd3 where sh: "shuffleArray all_cells rnd2 = (cells, rnd3)"
    by (cases "shuffleArray all_cells rnd2")
  have "square9 grid1 \<and> consistent grid1"
    using fill_keeps(1) [OF square9_empty consistent_empty, of rnd] f by simp
  then have "square9 (fold (\<lambda>(row, col) g. set_cell g row col None) (take (45 + k) cells) grid1) \<and>
             consistent (fold (\<lambda>(row, col) g. set_cell g row col None) (take (45 + k) cells) grid1)"
    using fold_clear_keeps by blast
  then show ?thesis
    by (simp add: generateRandomSudoku_def removeCells_def f k sh)
qed

text \<open>
  C1. In every grid that \<^verbatim>\<open>generateRandomSudoku\<close> returns, whatever the random draws, no
  digit occurs twice among the non-empty entries of a row, of a column or of a 3 by 3 box.
\<close>

theorem C1_generated_grid_valid:
  "i < 9 \<Longrightarrow>
     no_duplicate (row_entries (generateRandomSudoku rnd) i) \<and>
     no_duplicate (col_entries (generateRandomSudoku rnd) i) \<and>
     no_duplicate (box_entries (generateRandomSudoku rnd) i)"
proof -
  assume i: "i < 9"
  have "consistent (generateRandomSudoku rnd)"
    using generated_keeps [of rnd] by simp
  then show ?thesis
    using i by (simp add: consistent_units)
qed

lemma generated_example:
  "generateRandomSudoku [] =
    [[Some 2, None, None, None, None, None, None, None, None],
     [None, None, None, None, None, None, None, None, None],
     [None, None, None, None, None, None, None, None, None],
     [None, None, None, None, None, None, None, None, None],
     [None, None, None, None, None, None, None, None, None],
     [None, Some 1, Some 8, Some 3, Some 2, Some 5, Some 4, Some 7, Some 6],
     [Some 6, Some 4, Some 2, Some 7, Some 5, Some 3, Some 1, Some 8, Some 9],
     [Some 7, Some 5, Some 3, Some 1, Some 8, Some 9, Some 6, Some 4, Some 2],
     [Some 1, Some 8, Some 9, Some 6, Some 4, Some 2, Some 7, Some 5, Some 3]]"
  by code_simp

theorem C1_witness:
  "row_entries (generateRandomSudoku []) 5
     = [None, Some 1, Some 8, Some 3, Some 2, Some 5, Some 4, Some 7, Some 6] \<and>
   no_duplicate (row_entries (generateRandomSudoku []) 5) \<and>
   no_duplicate (col_entries (generateRandomSudoku []) 5) \<and>
   no_duplicate (box_entries (generateRandomSudoku []) 5)"
proof -
  have "row_entries (generateRandomSudoku []) 5
     = [None, Some 1, Some 8, Some 3, Some 2, Some 5, Some 4, Some 7, Some 6]"
    unfolding generated_example by code_simp
  then show ?thesis using C1_generated_grid_valid [of 5 "[]"] by simp
qed

section \<open>Backtracking and shuffling\<close>

text \<open>
  A failed call of \<^verbatim>\<open>fillGrid\<close> returns the grid it was given, a successful call
  returns a grid without empty cells, and \<^verbatim>\<open>shuffleArray\<close> returns a permutation of
  its argument.
\<close>

lemma fill_fail:
  "\<not> fst (fillGrid g rnd) \<Longrightarrow> fst (snd (fillGrid g rnd)) = g"
  "is_null g r c \<Longrightarrow> \<not> fst (try_numbers g r c nums rnd) \<Longrightarrow>
     fst (snd (try_numbers g r c nums rnd)) = g"
proof (induct g rnd and g r c nums rnd rule: fillGrid_try_numbers.induct)
  case (1 grid rnd)
  show ?case
  proof (cases "first_null grid")
    case None
    then show ?thesis by (simp add: fillGrid.simps)
  next
    case (Some p)
    obtain row col where p: "p = (row, col)" by (cases p)
    obtain numbers rnd'
      where sh: "shuffleArray [1::nat, 2, 3, 4, 5, 6, 7, 8, 9] rnd = (numbers, rnd')"
      by (cases "shuffleArray [1::nat, 2, 3, 4, 5, 6, 7, 8, 9] rnd")
    have eq: "fillGrid grid rnd = try_numbers grid row col numbers rnd'"
      using Some p sh by (simp add: fillGrid.simps)
    have nul: "is_null grid row col" using Some p first_null_Some by blast
    show ?thesis
      using 1(1) [OF Some p [symmetric] refl sh [symmetric] nul] 1(2) unfolding eq by simp
  qed
next
  case (2 grid row col rnd)
  then show ?case by simp
next
  case (3 grid row col num nums rnd)
  show ?case
  proof (cases "isValidPlacement grid row col num")
    case False
    then show ?thesis using 3(3) [OF False 3(4)] 3(5) by simp
  next
    case True
    let ?res = "fillGrid (set_cell grid row col (Some num)) rnd"
    show ?thesis
    proof (cases "fst ?res")
      case filled: True
      then show ?thesis using 3(5) True by (simp add: Let_def)
    next
      case failed: False
      have "fst (snd ?res) = set_cell grid row col (Some num)"
        using 3(1) [OF True failed] .
      then have restored: "set_cell (fst (snd ?res)) row col None = grid"
        using 3(4) by (simp add: set_cell_overwrite set_cell_null_id)
      have eq: "try_numbers grid row col (num # nums) rnd
                  = try_numbers grid row col nums (snd (snd ?res))"
        using True failed restored by (simp add: Let_def)
      show ?thesis
        using 3(2) [OF True refl failed] 3(4,5) unfolding restored eq by simp
    qed
  qed
qed

lemma fill_success:
  "fst (fillGrid g rnd) \<Longrightarrow> first_null (fst (snd (fillGrid g rnd))) = None"
  "fst (try_numbers g r c nums rnd) \<Longrightarrow> first_null (fst (snd (try_numbers g r c nums rnd))) = None"
proof (induct g rnd and g r c nums rnd rule: fillGrid_try_numbers.induct)
  case (1 grid rnd)
  show ?case
  proof (cases "first_null grid")
    case None
    then show ?thesis by (simp add: fillGrid.simps)
  next
    case (Some p)
    obtain row col where p: "p = (row, col)" by (cases p)
    obtain numbers rnd'
      where sh: "shuffleArray [1::nat, 2, 3, 4, 5, 6, 7, 8, 9] rnd = (numbers, rnd')"
      by (cases "shuffleArray [1::nat, 2, 3, 4, 5, 6, 7, 8, 9] rnd")
    have eq: "fillGrid grid rnd = try_numbers grid row col numbers rnd'"
      using Some p sh by (simp add: fillGrid.simps)
    show ?thesis
      using 1(1) [OF Some p [symmetric] refl sh [symmetric]] 1(2) unfolding eq by simp
  qed
next
  case (2 grid row col rnd)
  then show ?case by simp
next
  case (3 grid row col num nums rnd)
  show ?case
  proof (cases "isValidPlacement grid row col num")
    case False
    then show ?thesis using 3(3) [OF False] 3(4) by simp
  next
    case True
    let ?res = "fillGrid (set_cell grid row col (Some num)) rnd"
    show ?thesis
    proof (cases "fst ?res")
      case filled: True
      then show ?thesis using 3(1) [OF True] True by (simp add: Let_def)
    next
      case failed: False
      then show ?thesis using 3(2) [OF True refl failed] 3(4) True by (simp add: Let_def)
    qed
  qed
qed

lemma shuffle_from_mset:
  "k < length xs \<or> k = 0 \<Longrightarrow> mset (fst (shuffle_from k xs rnd)) = mset xs"
proof (induction k arbitrary: xs rnd)
  case 0
  then show ?case by simp
next
  case (Suc k)
  then have len: "Suc k < length xs" by simp
  obtain j rnd' where d: "random_below (Suc k + 1) rnd = (j, rnd')"
    by (cases "random_below (Suc k + 1) rnd")
  have "j \<le> Suc k"
    using d by (cases rnd) (auto simp: less_Suc_eq_le [symmetric])
  then have j: "j < length xs" using len by simp
  have "mset (xs[Suc k := xs ! j, j := xs ! Suc k]) = mset xs"
    using j len by (rule mset_swap [of j xs "Suc k"])
  moreover have "mset (fst (shuffle_from k (xs[Suc k := xs ! j, j := xs ! Suc k]) rnd'))
      = mset (xs[Suc k := xs ! j, j := xs ! Suc k])"
    using len by (intro Suc.IH) simp
  ultimately show ?case using d by simp
qed

lemma shuffleArray_mset: "mset (fst (shuffleArray xs rnd)) = mset xs"
  unfolding shuffleArray_def by (rule shuffle_from_mset) (cases xs; simp)

section \<open>The fill always succeeds\<close>

text \<open>
  On a grid that agrees with \<open>solved\<close> every call of \<^verbatim>\<open>fillGrid\<close> succeeds: at the first
  empty cell the digit of \<open>solved\<close> is among the shuffled candidates and is legal there;
  a candidate tried before it either leads to success or fails and leaves the grid as it
  was. The empty grid agrees with \<open>solved\<close>.
\<close>

lemma square9_solved: "square9 solved"
  by code_simp

lemma solved_digit:
  assumes "r < 9" "c < 9"
  shows "\<exists>d. solved ! r ! c = Some d \<and> d \<in> set [1, 2, 3, 4, 5, 6, 7, 8, 9]"
proof -
  have "list_all (\<lambda>(r, c). \<exists>d \<in> set [1, 2, 3, 4, 5, 6, 7, 8, 9]. solved ! r ! c = Some d) all_cells"
    by code_simp
  then show ?thesis
    using all_cells_ball [where P = "\<lambda>r c. \<exists>d \<in> set [1, 2, 3, 4, 5, 6, 7, 8, 9]. solved ! r ! c = Some d",
        OF _ assms]
    by blast
qed

lemma consistent_solved: "consistent solved"
proof -
  have checked: "list_all (\<lambda>(r, c). case solved ! r ! c of None \<Rightarrow> True
                   | Some d \<Rightarrow> isValidMove (initialGrid solved) r c d) all_cells"
    by code_simp
  have vals: "cell_value (initialGrid solved ! r ! c) = solved ! r ! c" if "r < 9" "c < 9" for r c
    using that square9_solved by (simp add: nth_initialGrid square9_def)
  show ?thesis
    unfolding consistent_def
  proof (intro allI impI)
    fix r c r' c' :: nat
    assume b: "r < 9" "c < 9" "r' < 9" "c' < 9"
      and h: "(r', c') \<noteq> (r, c) \<and> same_unit r c r' c' \<and> solved ! r ! c \<noteq> None"
    then obtain d where d: "solved ! r ! c = Some d" by auto
    have "case solved ! r ! c of None \<Rightarrow> True | Some d \<Rightarrow> isValidMove (initialGrid solved) r c d"
      using all_cells_ball [where P = "\<lambda>r c. case solved ! r ! c of None \<Rightarrow> True
                   | Some d \<Rightarrow> isValidMove (initialGrid solved) r c d", OF checked b(1,2)] .
    then have "\<not> other_holds (initialGrid solved) cell_value r c d"
      using d by (simp add: isValidMove_iff [OF b(1,2)])
    then have "cell_value (initialGrid solved ! r' ! c') \<noteq> Some d"
      unfolding other_holds_def using b(3,4) h by blast
    then show "solved ! r' ! c' \<noteq> solved ! r ! c"
      using d vals [OF b(3,4)] by simp
  qed
qed

lemma agrees_place:
  assumes "agrees_with_solved g" "square9 g" "solved ! r ! c = Some d"
  shows "agrees_with_solved (set_cell g r c (Some d))"
  using assms unfolding agrees_with_solved_def
  by (auto simp: nth_set_cell)

lemma solved_digit_legal:
  assumes "agrees_with_solved g" "r < 9" "c < 9" "g ! r ! c = None" "solved ! r ! c = Some d"
  shows "isValidPlacement g r c d"
  unfolding isValidPlacement_iff [OF assms(2,3)]
proof
  assume "\<exists>r' < 9. \<exists>c' < 9. same_unit r c r' c' \<and> g ! r' ! c' = Some d"
  then obtain r' c' where b: "r' < 9" "c' < 9" and su: "same_unit r c r' c'"
    and v: "g ! r' ! c' = Some d" by blast
  have ne: "(r', c') \<noteq> (r, c)" using v assms(4) by auto
  have "solved ! r' ! c' = Some d"
    using assms(1) b v unfolding agrees_with_solved_def by (metis option.distinct(1))
  then show False
    using consistentD [OF consistent_solved assms(2,3) b ne su] assms(5) by simp
qed

lemma fill_complete:
  "square9 g \<Longrightarrow> agrees_with_solved g \<Longrightarrow> fst (fillGrid g rnd)"
  "square9 g \<Longrightarrow> agrees_with_solved g \<Longrightarrow> is_null g r c \<Longrightarrow> r < 9 \<Longrightarrow> c < 9 \<Longrightarrow>
     \<exists>d \<in> set nums. solved ! r ! c = Some d \<Longrightarrow> fst (try_numbers g r c nums rnd)"
proof (induct g rnd and g r c nums rnd rule: fillGrid_try_numbers.induct)
  case (1 grid rnd)
  show ?case
  proof (cases "first_null grid")
    case None
    then show ?thesis by (simp add: fillGrid.simps)
  next
    case (Some p)
    obtain row col where p: "p = (row, col)" by (cases p)
    obtain numbers rnd'
      where sh: "shuffleArray [1::nat, 2, 3, 4, 5, 6, 7, 8, 9] rnd = (numbers, rnd')"
      by (cases "shuffleArray [1::nat, 2, 3, 4, 5, 6, 7, 8, 9] rnd")
    have eq: "fillGrid grid rnd = try_numbers grid row col numbers rnd'"
      using Some p sh by (simp add: fillGrid.simps)
    have nul: "is_null grid row col" and "(row, col) \<in> set all_cells"
      using Some p first_null_Some by blast+
    then have b: "row < 9" "col < 9" by (simp_all add: in_all_cells)
    have "mset numbers = mset [1::nat, 2, 3, 4, 5, 6, 7, 8, 9]"
      using shuffleArray_mset [of "[1::nat, 2, 3, 4, 5, 6, 7, 8, 9]" rnd] sh by simp
    then have "set numbers = set [1::nat, 2, 3, 4, 5, 6, 7, 8, 9]" by (rule mset_eq_setD)
    then have "\<exists>d \<in> set numbers. solved ! row ! col = Some d"
      using solved_digit [OF b] by auto
    then show ?thesis
      unfolding eq by (rule 1(1) [OF Some p [symmetric] refl sh [symmetric] 1(2,3) nul b])
  qed
next
  case (2 grid row col rnd)
  then show ?case by simp
next
  case (3 grid row col num nums rnd)
  from 3(9) obtain d where d: "d \<in> set (num # nums)" "solved ! row ! col = Some d" by blast
  have empty: "grid ! row ! col = None" using 3(6) by (simp add: is_null_def)
  have legal: "isValidPlacement grid row col d"
    using solved_digit_legal [OF 3(5,7,8) empty d(2)] .
  show ?case
  proof (cases "isValidPlacement grid row col num")
    case False
    then have "d \<noteq> num" using legal by auto
    then have "\<exists>d \<in> set nums. solved ! row ! col = Some d" using d by auto
    then show ?thesis using 3(3) [OF False 3(4-8)] False by simp
  next
    case True
    let ?res = "fillGrid (set_cell grid row col (Some num)) rnd"
    show ?thesis
    proof (cases "fst ?res")
      case filled: True
      then show ?thesis using True by (simp add: Let_def)
    next
      case failed: False
      have "d \<noteq> num"
      proof
        assume "d = num"
        then have "agrees_with_solved (set_cell grid row col (Some num))"
          using agrees_place [OF 3(5,4) d(2)] by simp
        then have "fst ?res" using 3(1) [OF True square9_set_cell [OF 3(4)]] by simp
        then show False using failed by simp
      qed
      then have rest: "\<exists>d \<in> set nums. solved ! row ! col = Some d" using d by auto
      have "fst (snd ?res) = set_cell grid row col (Some num)"
        using fill_fail(1) [OF failed] .
      then have restored: "set_cell (fst (snd ?res)) row col None = grid"
        using 3(6) by (simp add: set_cell_overwrite set_cell_null_id)
      have eq: "try_numbers grid row col (num # nums) rnd
                  = try_numbers grid row col nums (snd (snd ?res))"
        using True failed restored by (simp add: Let_def)
      show ?thesis
        using 3(2) [OF True refl failed] 3(4-8) rest unfolding restored eq by simp
    qed
  qed
qed

lemma fill_empty_succeeds: "fst (fillGrid (replicate 9 (replicate 9 None)) rnd)"
  by (rule fill_complete(1) [OF square9_empty]) (simp add: agrees_with_solved_def)

section \<open>Counting the removed cells\<close>

text \<open>
  On a grid without empty cells \<^verbatim>\<open>removeCells\<close> empties the first \<open>n\<close> of the shuffled
  positions, which are \<open>n\<close> different cells of the grid when \<open>n\<close> is at most 81.
\<close>

lemma distinct_all_cells: "distinct all_cells"
  by code_simp

lemma length_all_cells: "length all_cells = 81"
  by code_simp

lemma concat_square9:
  assumes "square9 g"
  shows "concat g = map (\<lambda>(r, c). g ! r ! c) all_cells"
proof -
  have rows: "g = map (\<lambda>r. g ! r) [0..<9]"
    using assms map_nth [of g] by (simp add: square9_def)
  have row: "g ! r = map (\<lambda>c. g ! r ! c) [0..<9]" if "r < 9" for r
    using assms that map_nth [of "g ! r"] by (simp add: square9_def)
  have "map (\<lambda>(r, c). g ! r ! c) all_cells
          = concat (map (\<lambda>r. map (\<lambda>c. g ! r ! c) [0..<9]) [0..<9])"
    by (simp add: all_cells_def map_concat comp_def)
  also have "\<dots> = concat (map (\<lambda>r. g ! r) [0..<9])"
    using row by (intro arg_cong [where f = concat] map_cong) simp_all
  also have "\<dots> = concat g" using rows by simp
  finally show ?thesis by simp
qed

lemma fold_clear_nth:
  "square9 g \<Longrightarrow> r < 9 \<Longrightarrow> c < 9 \<Longrightarrow>
     fold (\<lambda>(row, col) g. set_cell g row col None) ps g ! r ! c
       = (if (r, c) \<in> set ps then None else g ! r ! c)"
proof (induction ps arbitrary: g)
  case Nil
  then show ?case by simp
next
  case (Cons p ps)
  obtain row col where p: "p = (row, col)" by (cases p)
  have sq: "square9 (set_cell g row col None)" using Cons.prems(1) by (rule square9_set_cell)
  show ?case
    using Cons.IH [OF sq Cons.prems(2,3)] Cons.prems
    by (auto simp: p nth_set_cell)
qed

lemma square9_fold_clear:
  "square9 g \<Longrightarrow> square9 (fold (\<lambda>(row, col) g. set_cell g row col None) ps g)"
  by (induction ps arbitrary: g) (auto simp: square9_set_cell)

lemma count_empty_positions:
  assumes "square9 g"
  shows "count_empty g = card {p \<in> set all_cells. g ! fst p ! snd p = None}"
proof -
  have "count_empty g = length (filter (\<lambda>p. g ! fst p ! snd p = None) all_cells)"
    by (simp add: count_empty_def concat_square9 [OF assms] filter_map comp_def case_prod_beta)
  also have "\<dots> = card {p \<in> set all_cells. g ! fst p ! snd p = None}"
    using distinct_all_cells by (simp add: distinct_length_filter Int_def conj_commute)
  finally show ?thesis .
qed

lemma removeCells_count:
  assumes "square9 g" "first_null g = None" "n \<le> 81"
  shows "square9 (fst (removeCells g n rnd)) \<and> count_empty (fst (removeCells g n rnd)) = n"
proof -
  obtain cells rnd' where sh: "shuffleArray all_cells rnd = (cells, rnd')"
    by (cases "shuffleArray all_cells rnd")
  let ?g = "fold (\<lambda>(row, col) g. set_cell g row col None) (take n cells) g"
  have res: "fst (removeCells g n rnd) = ?g" by (simp add: removeCells_def sh)
  have perm: "mset cells = mset all_cells" using shuffleArray_mset [of all_cells rnd] sh by simp
  then have set_eq: "set cells = set all_cells" by (rule mset_eq_setD)
  have dist: "distinct cells" using perm distinct_all_cells by (metis mset_eq_imp_distinct_iff)
  have len: "length cells = 81" using perm length_all_cells by (metis size_mset)
  have sq: "square9 ?g" using assms(1) by (rule square9_fold_clear)
  have full: "g ! r ! c \<noteq> None" if "(r, c) \<in> set all_cells" for r c
  proof -
    have "\<not> is_null g r c"
      using assms(2) that by (auto simp: first_null_def find_None_iff)
    moreover have "r < 9" "c < 9" using that by (simp_all add: in_all_cells)
    ultimately show ?thesis using assms(1) by (simp add: is_null_def square9_def)
  qed
  have "{p \<in> set all_cells. ?g ! fst p ! snd p = None} = set (take n cells)"
  proof (intro set_eqI iffI)
    fix p assume "p \<in> {p \<in> set all_cells. ?g ! fst p ! snd p = None}"
    then have in_all: "(fst p, snd p) \<in> set all_cells" and v: "?g ! fst p ! snd p = None" by simp_all
    have b: "fst p < 9" "snd p < 9"
      using in_all in_all_cells [of "fst p" "snd p"] by simp_all
    show "p \<in> set (take n cells)"
      using v full [OF in_all] fold_clear_nth [OF assms(1) b, of "take n cells"]
      by (simp split: if_splits)
  next
    fix p assume p: "p \<in> set (take n cells)"
    then have "p \<in> set cells" by (rule in_set_takeD)
    then have in_all: "(fst p, snd p) \<in> set all_cells" using set_eq by simp
    have b: "fst p < 9" "snd p < 9"
      using in_all in_all_cells [of "fst p" "snd p"] by simp_all
    show "p \<in> {p \<in> set all_cells. ?g ! fst p ! snd p = None}"
      using p in_all fold_clear_nth [OF assms(1) b, of "take n cells"] by simp
  qed
  then have "count_empty ?g = card (set (take n cells))"
    by (simp add: count_empty_positions [OF sq])
  also have "\<dots> = length (take n cells)"
    using dist by (simp add: distinct_card)
  also have "\<dots> = n" using len assms(3) by simp
  finally show ?thesis using sq res by simp
qed

section \<open>The removal count (C9)\<close>

lemma random_below_less: "0 < n \<Longrightarrow> fst (random_below n rnd) < n"
  by (cases rnd) simp_all

lemma count_filled_compl: "count_filled g = length (concat g) - count_empty g"
proof -
  have "length (concat g) = count_empty g + count_filled g"
    unfolding count_empty_def count_filled_def
    by (rule sum_length_filter_compl [symmetric])
  then show ?thesis by simp
qed

lemma length_concat_square9: "square9 g \<Longrightarrow> length (concat g) = 81"
  by (simp add: concat_square9 length_all_cells)

lemma generated_count:
  "\<exists>k < 6. square9 (generateRandomSudoku rnd) \<and> count_empty (generateRandomSudoku rnd) = 45 + k"
proof -
  obtain filled grid1 rnd1
    where f: "fillGrid (replicate 9 (replicate 9 None)) rnd = (filled, grid1, rnd1)"
    by (cases "fillGrid (replicate 9 (replicate 9 None)) rnd") auto
  obtain k rnd2 where k: "random_below 6 rnd1 = (k, rnd2)" by (cases "random_below 6 rnd1")
  have k6: "k < 6" using random_below_less [of 6 rnd1] k by simp
  have "filled" using fill_empty_succeeds [of rnd] f by simp
  then have full: "first_null grid1 = None"
    using fill_success(1) [of "replicate 9 (replicate 9 None)" rnd] f by simp
  have sq: "square9 grid1"
    using fill_keeps(1) [OF square9_empty consistent_empty, of rnd] f by simp
  have gen: "generateRandomSudoku rnd = fst (removeCells grid1 (45 + k) rnd2)"
    by (simp add: generateRandomSudoku_def f k split: prod.split)
  have "square9 (fst (removeCells grid1 (45 + k) rnd2)) \<and>
        count_empty (fst (removeCells grid1 (45 + k) rnd2)) = 45 + k"
    using k6 by (intro removeCells_count [OF sq full]) simp
  then show ?thesis using k6 gen by auto
qed

text \<open>
  C9. Every grid that \<^verbatim>\<open>generateRandomSudoku\<close> returns, whatever the random draws, has
  at least 45 and at most 50 empty cells, that is at least 31 and at most 36 filled
  cells.
\<close>

theorem C9_removal_count:
  "45 \<le> count_empty (generateRandomSudoku rnd) \<and> count_empty (generateRandomSudoku rnd) \<le> 50 \<and>
   31 \<le> count_filled (generateRandomSudoku rnd) \<and> count_filled (generateRandomSudoku rnd) \<le> 36"
proof -
  obtain k where k: "k < 6" "square9 (generateRandomSudoku rnd)"
    "count_empty (generateRandomSudoku rnd) = 45 + k"
    using generated_count [of rnd] by blast
  have "count_filled (generateRandomSudoku rnd) = 81 - (45 + k)"
    using k(2,3) by (simp add: count_filled_compl length_concat_square9)
  then show ?thesis using k(1,3) by simp
qed

theorem C9_witness:
  "(count_empty (generateRandomSudoku []) = 45 \<and> count_filled (generateRandomSudoku []) = 36) \<and>
   (45 \<le> count_empty (generateRandomSudoku []) \<and> count_empty (generateRandomSudoku []) \<le> 50 \<and>
    31 \<le> count_filled (generateRandomSudoku []) \<and> count_filled (generateRandomSudoku []) \<le> 36)"
proof -
  have "count_empty (generateRandomSudoku []) = 45"
    unfolding generated_example by code_simp
  moreover have "count_filled (generateRandomSudoku []) = 36"
    unfolding generated_example by code_simp
  ultimately have "count_empty (generateRandomSudoku []) = 45 \<and>
      count_filled (generateRandomSudoku []) = 36"
    by simp
  then show ?thesis by (rule conjI [OF _ C9_removal_count [of "[]"]])
qed

end
